theory Spec2Isabelle
  imports Main
begin

section \<open>Data model of the pipeline wiring layer (src/pipeline/Node.cpp)\<close>

text \<open>
  Objects that the C++ code reaches through references, raw pointers, shared or weak
  pointers live in an explicit store and are named by addresses.  A dereference of an
  address the store does not hold, an exception and a blocking call that never returns
  are values of \<open>error\<close>.
\<close>

type_synonym addr = nat

text \<open>\<open>Node::Id\<close> is declared in Node.hpp; the code only copies and compares it.\<close>

type_synonym Id = int

datatype error =
    BadWeakPtr    \<comment> \<open>\<open>std::shared_ptr\<close> built from an expired \<open>weak_ptr\<close>\<close>
  | NullDeref     \<comment> \<open>\<open>node->...\<close> on the null pointer\<close>
  | DanglingRef   \<comment> \<open>a reference or raw pointer to an object that is gone\<close>
  | OutOfRange    \<comment> \<open>\<open>at(key)\<close> on a key the container does not hold\<close>
  | Blocked       \<comment> \<open>a blocking queue \<open>send\<close> that does not return\<close>

record Connection =
  outputId :: Id
  outputName :: string
  outputGroup :: string
  inputId :: Id
  inputName :: string
  inputGroup :: string

record Output =
  name :: string
  group :: string
  parent :: addr    \<comment> \<open>\<open>Node& parent\<close>\<close>

record 'q Input =
  name :: string
  group :: string
  parent :: addr    \<comment> \<open>\<open>Node& parent\<close>\<close>
  queue :: 'q
  blocking :: "bool option"
  queueSize :: "int option"
  waitForMessage :: "bool option"
  defaultBlocking :: bool
  defaultQueueSize :: int
  defaultWaitForMessage :: bool

subsection \<open>The associative containers\<close>

text \<open>
  Modelled from the spec: the container type behind \<open>OutputMap\<close>, \<open>InputMap\<close> and the
  four reference tables of \<open>Node\<close> is declared in the header Node.hpp, outside Node.cpp.
  A container is the list of its entries in the order a range-for visits them, with one
  entry per key.  For \<open>OutputMap\<close> and \<open>InputMap\<close> the spec gives an insertion-ordered
  mapping: \<open>insert\<close> puts a new key at the end.
\<close>

type_synonym ('k, 'v) omap = "('k \<times> 'v) list"

definition count_om :: "('k, 'v) omap \<Rightarrow> 'k \<Rightarrow> nat" where
  "count_om m k = (case map_of m k of None \<Rightarrow> 0 | Some v \<Rightarrow> 1)"

definition insert_om :: "('k, 'v) omap \<Rightarrow> 'k \<times> 'v \<Rightarrow> ('k, 'v) omap" where
  "insert_om m kv = (case map_of m (fst kv) of None \<Rightarrow> m @ [kv] | Some v \<Rightarrow> m)"

definition at_om :: "('k, 'v) omap \<Rightarrow> 'k \<Rightarrow> error + 'v" where
  "at_om m k = (case map_of m k of None \<Rightarrow> Inl OutOfRange | Some v \<Rightarrow> Inr v)"

text \<open>A write through a reference to the element stored under \<open>k\<close>.\<close>

fun modify_om :: "('k, 'v) omap \<Rightarrow> 'k \<Rightarrow> ('v \<Rightarrow> 'v) \<Rightarrow> ('k, 'v) omap" where
  "modify_om [] k f = []"
| "modify_om (p # ps) k f = (if fst p = k then (k, f (snd p)) # ps else p # modify_om ps k f)"

text \<open>
  Modelled from the spec: \<open>m[k] = v\<close> on one of the four tables of \<open>Node\<close>.  For these the
  spec gives a mapping keyed by name in which a registration under a name that is present
  replaces the entry; neither the spec nor Node.cpp says where a range-for meets an entry
  with a new name.  The value under a present key is overwritten where it stands; what
  the container does with a new key is the parameter \<open>place\<close>.
\<close>

definition assign_om ::
  "(('k, 'v) omap \<Rightarrow> 'k \<Rightarrow> 'v \<Rightarrow> ('k, 'v) omap) \<Rightarrow> ('k, 'v) omap \<Rightarrow> 'k \<Rightarrow> 'v \<Rightarrow> ('k, 'v) omap" where
  "assign_om place m k v =
     (case map_of m k of
        None \<Rightarrow> place m k v
      | Some old \<Rightarrow> modify_om m k (\<lambda>old. v))"

record OutputMap =
  defaultOutput :: Output
  name :: string
  entries :: "(string, Output) omap"    \<comment> \<open>the base-class container\<close>

record 'q InputMap =
  defaultInput :: "'q Input"
  name :: string
  entries :: "(string, 'q Input) omap"    \<comment> \<open>the base-class container\<close>

text \<open>
  \<open>Output*\<close> and \<open>Input*\<close>: the address of a port object of its own, or of the element
  a port group at some address stores under a key (\<open>&kv.second\<close>).
\<close>

datatype OutputPtr = OutputObj addr | OutputElem addr string
datatype InputPtr = InputObj addr | InputElem addr string

record Node =
  id_node :: Id                             \<comment> \<open>\<open>id\<close>\<close>
  parent :: "addr option"                   \<comment> \<open>\<open>std::weak_ptr<PipelineImpl> parent\<close>\<close>
  outputRefs :: "(string, OutputPtr) omap"
  inputRefs :: "(string, InputPtr) omap"
  outputMapRefs :: "(string, addr) omap"    \<comment> \<open>\<open>OutputMap*\<close>\<close>
  inputMapRefs :: "(string, addr) omap"     \<comment> \<open>\<open>InputMap*\<close>\<close>

text \<open>
  Modelled from the spec: \<open>PipelineImpl\<close> is declared and defined outside Node.cpp.  The spec gives it \<open>getConnections() -> [Connection]\<close> and
  \<open>getNode(id) -> optional<NodeRef>\<close>: a list of connections and a partial map from node
  ids to (shared pointers to) nodes.
\<close>

record PipelineImpl =
  nodeMap :: "Id \<rightharpoonup> addr"
  connections :: "Connection list"

record 'q World =
  pipelines :: "addr \<rightharpoonup> PipelineImpl"    \<comment> \<open>the pipelines that are alive\<close>
  nodes :: "addr \<rightharpoonup> Node"
  outputs :: "addr \<rightharpoonup> Output"
  inputs :: "addr \<rightharpoonup> 'q Input"
  outputMaps :: "addr \<rightharpoonup> OutputMap"
  inputMaps :: "addr \<rightharpoonup> 'q InputMap"

section \<open>Port formatting\<close>

text \<open>
  \<open>fmt::format\<close> of the fmt library, for format strings whose only replacement fields
  are \<open>{}\<close>: each field is replaced by the next argument, which is not scanned again.
  (With no argument left fmt raises; \<open>toString\<close> always passes enough.)
\<close>

fun format :: "string \<Rightarrow> string list \<Rightarrow> string" where
  "format [] args = []"
| "format [c] args = [c]"
| "format (c # d # fs) args =
     (if c = CHR ''{'' \<and> d = CHR ''}'' then
        (case args of [] \<Rightarrow> c # d # format fs [] | a # as \<Rightarrow> a @ format fs as)
      else c # format (d # fs) args)"

definition toString_Output :: "Output \<Rightarrow> string" where
  "toString_Output p =
     (if Output.group p = '''' then format ''{}'' [Output.name p]
      else format ''{}[\"{}\"]'' [Output.group p, Output.name p])"

definition toString_Input :: "'q Input \<Rightarrow> string" where
  "toString_Input p =
     (if Input.group p = '''' then format ''{}'' [Input.name p]
      else format ''{}[\"{}\"]'' [Input.group p, Input.name p])"

section \<open>Input delivery policy\<close>

definition setBlocking :: "bool \<Rightarrow> 'q Input \<Rightarrow> 'q Input" where
  "setBlocking b i = i\<lparr>blocking := Some b\<rparr>"

definition getBlocking :: "'q Input \<Rightarrow> bool" where
  "getBlocking i = (case blocking i of Some b \<Rightarrow> b | None \<Rightarrow> defaultBlocking i)"

definition setQueueSize :: "int \<Rightarrow> 'q Input \<Rightarrow> 'q Input" where
  "setQueueSize size' i = i\<lparr>queueSize := Some size'\<rparr>"

definition getQueueSize :: "'q Input \<Rightarrow> int" where
  "getQueueSize i = (case queueSize i of Some n \<Rightarrow> n | None \<Rightarrow> defaultQueueSize i)"

definition setWaitForMessage :: "bool \<Rightarrow> 'q Input \<Rightarrow> 'q Input" where
  "setWaitForMessage w i = i\<lparr>waitForMessage := Some w\<rparr>"

definition getWaitForMessage :: "'q Input \<Rightarrow> bool" where
  "getWaitForMessage i =
     (case waitForMessage i of Some w \<Rightarrow> w | None \<Rightarrow> defaultWaitForMessage i)"

definition setReusePreviousMessage :: "bool \<Rightarrow> 'q Input \<Rightarrow> 'q Input" where
  "setReusePreviousMessage w i = i\<lparr>waitForMessage := Some (\<not> w)\<rparr>"

definition getReusePreviousMessage :: "'q Input \<Rightarrow> bool" where
  "getReusePreviousMessage i =
     (\<not> (case waitForMessage i of Some w \<Rightarrow> w | None \<Rightarrow> defaultWaitForMessage i))"

text \<open>A call of one of the two setters, and a sequence of such calls run in order.\<close>

datatype policy_call = SetWaitForMessage bool | SetReusePreviousMessage bool

fun run_call :: "'q Input \<Rightarrow> policy_call \<Rightarrow> 'q Input" where
  "run_call i (SetWaitForMessage b) = setWaitForMessage b i"
| "run_call i (SetReusePreviousMessage b) = setReusePreviousMessage b i"

fun run_calls :: "'q Input \<Rightarrow> policy_call list \<Rightarrow> 'q Input" where
  "run_calls i [] = i"
| "run_calls i (c # cs) = run_calls (run_call i c) cs"

section \<open>Port groups: \<open>OutputMap::operator[]\<close> and \<open>InputMap::operator[]\<close>\<close>

text \<open>
  The C++ operators return a reference to the stored element.  The model returns the
  element together with the group after the call; a later write through the reference
  is \<open>modify_om\<close> on the entries at the same key.
\<close>

definition OutputMap_index :: "OutputMap \<Rightarrow> string \<Rightarrow> error + Output \<times> OutputMap" where
  "OutputMap_index m key =
     (let m' =
        (if count_om (OutputMap.entries m) key = 0 then
           (let output = defaultOutput m;
                output = output\<lparr>Output.group := OutputMap.name m\<rparr>;
                output = output\<lparr>Output.name := key\<rparr>
            in m\<lparr>OutputMap.entries := insert_om (OutputMap.entries m) (key, output)\<rparr>)
         else m)
      in case at_om (OutputMap.entries m') key of
           Inl e \<Rightarrow> Inl e
         | Inr p \<Rightarrow> Inr (p, m'))"

definition InputMap_index :: "'q InputMap \<Rightarrow> string \<Rightarrow> error + 'q Input \<times> 'q InputMap" where
  "InputMap_index m key =
     (let m' =
        (if count_om (InputMap.entries m) key = 0 then
           (let input = defaultInput m;
                input = input\<lparr>Input.group := InputMap.name m\<rparr>;
                input = input\<lparr>Input.name := key\<rparr>
            in m\<lparr>InputMap.entries := insert_om (InputMap.entries m) (key, input)\<rparr>)
         else m)
      in case at_om (InputMap.entries m') key of
           Inl e \<Rightarrow> Inl e
         | Inr p \<Rightarrow> Inr (p, m'))"

section \<open>Pointers into the store\<close>

fun derefOutput :: "'q World \<Rightarrow> OutputPtr \<Rightarrow> Output option" where
  "derefOutput w (OutputObj a) = outputs w a"
| "derefOutput w (OutputElem ma k) =
     (case outputMaps w ma of None \<Rightarrow> None | Some m \<Rightarrow> map_of (OutputMap.entries m) k)"

fun derefInput :: "'q World \<Rightarrow> InputPtr \<Rightarrow> 'q Input option" where
  "derefInput w (InputObj a) = inputs w a"
| "derefInput w (InputElem ma k) =
     (case inputMaps w ma of None \<Rightarrow> None | Some m \<Rightarrow> map_of (InputMap.entries m) k)"

text \<open>Writing an input back through the pointer it was read from.\<close>

fun storeInput :: "'q World \<Rightarrow> InputPtr \<Rightarrow> 'q Input \<Rightarrow> 'q World" where
  "storeInput w (InputObj a) i = w\<lparr>inputs := (inputs w)(a \<mapsto> i)\<rparr>"
| "storeInput w (InputElem ma k) i =
     (case inputMaps w ma of
        None \<Rightarrow> w
      | Some m \<Rightarrow>
          w\<lparr>inputMaps :=
              (inputMaps w)(ma \<mapsto> m\<lparr>InputMap.entries := modify_om (InputMap.entries m) k (\<lambda>old. i)\<rparr>)\<rparr>)"

section \<open>Port enumeration of a node\<close>

fun getOutputRefs_singles :: "(string, OutputPtr) omap \<Rightarrow> OutputPtr list \<Rightarrow> OutputPtr list" where
  "getOutputRefs_singles [] tmpOutputRefs = tmpOutputRefs"
| "getOutputRefs_singles (kv # kvs) tmpOutputRefs =
     getOutputRefs_singles kvs (tmpOutputRefs @ [snd kv])"

fun getOutputRefs_elems :: "addr \<Rightarrow> (string, Output) omap \<Rightarrow> OutputPtr list \<Rightarrow> OutputPtr list" where
  "getOutputRefs_elems ma [] tmpOutputRefs = tmpOutputRefs"
| "getOutputRefs_elems ma (kv # kvs) tmpOutputRefs =
     getOutputRefs_elems ma kvs (tmpOutputRefs @ [OutputElem ma (fst kv)])"

fun getOutputRefs_maps ::
  "'q World \<Rightarrow> (string, addr) omap \<Rightarrow> OutputPtr list \<Rightarrow> error + OutputPtr list" where
  "getOutputRefs_maps w [] tmpOutputRefs = Inr tmpOutputRefs"
| "getOutputRefs_maps w (kvMap # kvMaps) tmpOutputRefs =
     (case outputMaps w (snd kvMap) of
        None \<Rightarrow> Inl DanglingRef
      | Some m \<Rightarrow>
          getOutputRefs_maps w kvMaps
            (getOutputRefs_elems (snd kvMap) (OutputMap.entries m) tmpOutputRefs))"

definition getOutputRefs :: "'q World \<Rightarrow> Node \<Rightarrow> error + OutputPtr list" where
  "getOutputRefs w n =
     getOutputRefs_maps w (outputMapRefs n) (getOutputRefs_singles (outputRefs n) [])"

fun getInputRefs_singles :: "(string, InputPtr) omap \<Rightarrow> InputPtr list \<Rightarrow> InputPtr list" where
  "getInputRefs_singles [] tmpInputRefs = tmpInputRefs"
| "getInputRefs_singles (kv # kvs) tmpInputRefs =
     getInputRefs_singles kvs (tmpInputRefs @ [snd kv])"

fun getInputRefs_elems :: "addr \<Rightarrow> (string, 'q Input) omap \<Rightarrow> InputPtr list \<Rightarrow> InputPtr list" where
  "getInputRefs_elems ma [] tmpInputRefs = tmpInputRefs"
| "getInputRefs_elems ma (kv # kvs) tmpInputRefs =
     getInputRefs_elems ma kvs (tmpInputRefs @ [InputElem ma (fst kv)])"

fun getInputRefs_maps ::
  "'q World \<Rightarrow> (string, addr) omap \<Rightarrow> InputPtr list \<Rightarrow> error + InputPtr list" where
  "getInputRefs_maps w [] tmpInputRefs = Inr tmpInputRefs"
| "getInputRefs_maps w (kvMap # kvMaps) tmpInputRefs =
     (case inputMaps w (snd kvMap) of
        None \<Rightarrow> Inl DanglingRef
      | Some m \<Rightarrow>
          getInputRefs_maps w kvMaps
            (getInputRefs_elems (snd kvMap) (InputMap.entries m) tmpInputRefs))"

definition getInputRefs :: "'q World \<Rightarrow> Node \<Rightarrow> error + InputPtr list" where
  "getInputRefs w n =
     getInputRefs_maps w (inputMapRefs n) (getInputRefs_singles (inputRefs n) [])"

text \<open>\<open>getOutputRef(group, name)\<close>, \<open>getOutputRef(name)\<close> and the input forms; \<open>None\<close> is \<open>nullptr\<close>.\<close>

fun getOutputRef_scan ::
  "'q World \<Rightarrow> OutputPtr list \<Rightarrow> string \<Rightarrow> string \<Rightarrow> error + OutputPtr option" where
  "getOutputRef_scan w [] group' name' = Inr None"
| "getOutputRef_scan w (out # refs) group' name' =
     (case derefOutput w out of
        None \<Rightarrow> Inl DanglingRef
      | Some p \<Rightarrow>
          if Output.group p = group' \<and> Output.name p = name' then Inr (Some out)
          else getOutputRef_scan w refs group' name')"

definition getOutputRef :: "'q World \<Rightarrow> Node \<Rightarrow> string \<Rightarrow> string \<Rightarrow> error + OutputPtr option" where
  "getOutputRef w n group' name' =
     (case getOutputRefs w n of
        Inl e \<Rightarrow> Inl e
      | Inr refs \<Rightarrow> getOutputRef_scan w refs group' name')"

definition getOutputRef_name :: "'q World \<Rightarrow> Node \<Rightarrow> string \<Rightarrow> error + OutputPtr option" where
  "getOutputRef_name w n name' = getOutputRef w n [] name'"

fun getInputRef_scan ::
  "'q World \<Rightarrow> InputPtr list \<Rightarrow> string \<Rightarrow> string \<Rightarrow> error + InputPtr option" where
  "getInputRef_scan w [] group' name' = Inr None"
| "getInputRef_scan w (input # refs) group' name' =
     (case derefInput w input of
        None \<Rightarrow> Inl DanglingRef
      | Some p \<Rightarrow>
          if Input.group p = group' \<and> Input.name p = name' then Inr (Some input)
          else getInputRef_scan w refs group' name')"

definition getInputRef :: "'q World \<Rightarrow> Node \<Rightarrow> string \<Rightarrow> string \<Rightarrow> error + InputPtr option" where
  "getInputRef w n group' name' =
     (case getInputRefs w n of
        Inl e \<Rightarrow> Inl e
      | Inr refs \<Rightarrow> getInputRef_scan w refs group' name')"

definition getInputRef_name :: "'q World \<Rightarrow> Node \<Rightarrow> string \<Rightarrow> error + InputPtr option" where
  "getInputRef_name w n name' = getInputRef w n [] name'"



definition setInputRefs ::
  "((string, InputPtr) omap \<Rightarrow> string \<Rightarrow> InputPtr \<Rightarrow> (string, InputPtr) omap)
    \<Rightarrow> 'q World \<Rightarrow> Node \<Rightarrow> InputPtr \<Rightarrow> error + Node" where
  "setInputRefs place w n inRef =
     (case derefInput w inRef of
        None \<Rightarrow> Inl DanglingRef
      | Some p \<Rightarrow>
          Inr (n\<lparr>inputRefs := assign_om place (inputRefs n) (Input.name p) inRef\<rparr>))"

fun setInputRefs_list ::
  "((string, InputPtr) omap \<Rightarrow> string \<Rightarrow> InputPtr \<Rightarrow> (string, InputPtr) omap)
    \<Rightarrow> 'q World \<Rightarrow> Node \<Rightarrow> InputPtr list \<Rightarrow> error + Node" where
  "setInputRefs_list place w n [] = Inr n"
| "setInputRefs_list place w n (inRef # l) =
     (case setInputRefs place w n inRef of
        Inl e \<Rightarrow> Inl e
      | Inr n' \<Rightarrow> setInputRefs_list place w n' l)"

definition setOutputMapRefs ::
  "((string, addr) omap \<Rightarrow> string \<Rightarrow> addr \<Rightarrow> (string, addr) omap)
    \<Rightarrow> 'q World \<Rightarrow> Node \<Rightarrow> addr \<Rightarrow> error + Node" where
  "setOutputMapRefs place w n outMapRef =
     (case outputMaps w outMapRef of
        None \<Rightarrow> Inl DanglingRef
      | Some m \<Rightarrow>
          Inr (n\<lparr>outputMapRefs :=
                 assign_om place (outputMapRefs n) (OutputMap.name m) outMapRef\<rparr>))"

fun setOutputMapRefs_list ::
  "((string, addr) omap \<Rightarrow> string \<Rightarrow> addr \<Rightarrow> (string, addr) omap)
    \<Rightarrow> 'q World \<Rightarrow> Node \<Rightarrow> addr list \<Rightarrow> error + Node" where
  "setOutputMapRefs_list place w n [] = Inr n"
| "setOutputMapRefs_list place w n (outMapRef # l) =
     (case setOutputMapRefs place w n outMapRef of
        Inl e \<Rightarrow> Inl e
      | Inr n' \<Rightarrow> setOutputMapRefs_list place w n' l)"

definition setInputMapRefs ::
  "((string, addr) omap \<Rightarrow> string \<Rightarrow> addr \<Rightarrow> (string, addr) omap)
    \<Rightarrow> 'q World \<Rightarrow> Node \<Rightarrow> addr \<Rightarrow> error + Node" where
  "setInputMapRefs place w n inMapRef =
     (case inputMaps w inMapRef of
        None \<Rightarrow> Inl DanglingRef
      | Some m \<Rightarrow>
          Inr (n\<lparr>inputMapRefs :=
                 assign_om place (inputMapRefs n) (InputMap.name m) inMapRef\<rparr>))"

fun setInputMapRefs_list ::
  "((string, addr) omap \<Rightarrow> string \<Rightarrow> addr \<Rightarrow> (string, addr) omap)
    \<Rightarrow> 'q World \<Rightarrow> Node \<Rightarrow> addr list \<Rightarrow> error + Node" where
  "setInputMapRefs_list place w n [] = Inr n"
| "setInputMapRefs_list place w n (inMapRef # l) =
     (case setInputMapRefs place w n inMapRef of
        Inl e \<Rightarrow> Inl e
      | Inr n' \<Rightarrow> setInputMapRefs_list place w n' l)"

subsection \<open>What the enumerations and lookups are compared with\<close>





text \<open>A pointer reaches a port of a given group and name.\<close>

definition validOutputPtr :: "'q World \<Rightarrow> OutputPtr \<Rightarrow> bool" where
  "validOutputPtr w p = (case derefOutput w p of None \<Rightarrow> False | Some i \<Rightarrow> True)"

definition outputNamed :: "'q World \<Rightarrow> string \<Rightarrow> string \<Rightarrow> OutputPtr \<Rightarrow> bool" where
  "outputNamed w group' name' p =
     (case derefOutput w p of
        None \<Rightarrow> False
      | Some q \<Rightarrow> Output.group q = group' \<and> Output.name q = name')"

definition inputNamed :: "'q World \<Rightarrow> string \<Rightarrow> string \<Rightarrow> InputPtr \<Rightarrow> bool" where
  "inputNamed w group' name' p =
     (case derefInput w p of
        None \<Rightarrow> False
      | Some q \<Rightarrow> Input.group q = group' \<and> Input.name q = name')"

section \<open>Connections of an output and pipeline identity\<close>

text \<open>\<open>weak_ptr::lock\<close>: the address of the pipeline when it is alive, else null.\<close>

definition lock :: "'q World \<Rightarrow> addr option \<Rightarrow> addr option" where
  "lock w wp =
     (case wp of
        None \<Rightarrow> None
      | Some a \<Rightarrow> (case pipelines w a of None \<Rightarrow> None | Some pl \<Rightarrow> Some a))"

text \<open>
  \<open>Node::getParentPipeline\<close>: a \<open>shared_ptr\<close> constructed from the weak pointer, which
  throws \<open>bad_weak_ptr\<close> when the pipeline is gone.
\<close>

definition getParentPipeline :: "'q World \<Rightarrow> Node \<Rightarrow> error + PipelineImpl" where
  "getParentPipeline w n =
     (case lock w (Node.parent n) of
        None \<Rightarrow> Inl BadWeakPtr
      | Some a \<Rightarrow> (case pipelines w a of None \<Rightarrow> Inl DanglingRef | Some pl \<Rightarrow> Inr pl))"

text \<open>Modelled from the spec: \<open>getNode(id) -> optional<NodeRef>\<close> of the pipeline.\<close>

definition getNode :: "PipelineImpl \<Rightarrow> Id \<Rightarrow> addr option" where
  "getNode pl i = nodeMap pl i"

fun getConnections_loop ::
  "Connection list \<Rightarrow> Id \<Rightarrow> Output \<Rightarrow> Connection list \<Rightarrow> Connection list" where
  "getConnections_loop [] pid out myConnections = myConnections"
| "getConnections_loop (conn # allConnections) pid out myConnections =
     getConnections_loop allConnections pid out
       (if outputId conn = pid \<and> outputName conn = Output.name out
           \<and> outputGroup conn = Output.group out
        then myConnections @ [conn] else myConnections)"

definition Output_getConnections :: "'q World \<Rightarrow> Output \<Rightarrow> error + Connection list" where
  "Output_getConnections w out =
     (case nodes w (Output.parent out) of
        None \<Rightarrow> Inl DanglingRef
      | Some pn \<Rightarrow>
          (case getParentPipeline w pn of
             Inl e \<Rightarrow> Inl e
           | Inr pl \<Rightarrow> Inr (getConnections_loop (connections pl) (id_node pn) out [])))"

definition isSamePipeline :: "'q World \<Rightarrow> Output \<Rightarrow> 'q Input \<Rightarrow> error + bool" where
  "isSamePipeline w out in' =
     (case nodes w (Output.parent out) of
        None \<Rightarrow> Inl DanglingRef
      | Some pn \<Rightarrow>
          (case lock w (Node.parent pn) of
             Some outputPipeline \<Rightarrow>
               (case nodes w (Input.parent in') of
                  None \<Rightarrow> Inl DanglingRef
                | Some inn \<Rightarrow> Inr (Some outputPipeline = lock w (Node.parent inn)))
           | None \<Rightarrow> Inr False))"

section \<open>Message fan-out: \<open>Output::send\<close> and \<open>Output::trySend\<close>\<close>

text \<open>
  The message queue of an input is an external collaborator.  Its two operations are
  parameters of the model: \<open>qsend msg q\<close> is the queue after a blocking send, or \<open>None\<close>
  when the call never returns; \<open>qtrySend msg q\<close> is the success flag and the queue after
  a non-blocking send.
\<close>

text \<open>
  The head of one iteration of the outer loop: the target node is resolved through the
  pipeline of the sending port's node, dereferenced, and its inputs are enumerated.
\<close>

definition resolveInputs :: "'q World \<Rightarrow> Output \<Rightarrow> Connection \<Rightarrow> error + InputPtr list" where
  "resolveInputs w out conn =
     (case nodes w (Output.parent out) of
        None \<Rightarrow> Inl DanglingRef
      | Some pn \<Rightarrow>
          (case getParentPipeline w pn of
             Inl e \<Rightarrow> Inl e
           | Inr pl \<Rightarrow>
               (case getNode pl (inputId conn) of
                  None \<Rightarrow> Inl NullDeref
                | Some na \<Rightarrow>
                    (case nodes w na of
                       None \<Rightarrow> Inl DanglingRef
                     | Some node \<Rightarrow> getInputRefs w node))))"

fun send_inputs ::
  "('m \<Rightarrow> 'q \<Rightarrow> 'q option) \<Rightarrow> 'q World \<Rightarrow> InputPtr list \<Rightarrow> Connection \<Rightarrow> 'm \<Rightarrow> error + 'q World" where
  "send_inputs qsend w [] conn msg = Inr w"
| "send_inputs qsend w (input # inputs') conn msg =
     (case derefInput w input of
        None \<Rightarrow> Inl DanglingRef
      | Some i \<Rightarrow>
          if Input.group i = inputGroup conn \<and> Input.name i = inputName conn then
            (case qsend msg (queue i) of
               None \<Rightarrow> Inl Blocked
             | Some q' \<Rightarrow> send_inputs qsend (storeInput w input (i\<lparr>queue := q'\<rparr>)) inputs' conn msg)
          else send_inputs qsend w inputs' conn msg)"

fun send_conns ::
  "('m \<Rightarrow> 'q \<Rightarrow> 'q option) \<Rightarrow> 'q World \<Rightarrow> Output \<Rightarrow> Connection list \<Rightarrow> 'm \<Rightarrow> error + 'q World" where
  "send_conns qsend w out [] msg = Inr w"
| "send_conns qsend w out (conn # conns) msg =
     (case resolveInputs w out conn of
        Inl e \<Rightarrow> Inl e
      | Inr inputs' \<Rightarrow>
          (case send_inputs qsend w inputs' conn msg of
             Inl e \<Rightarrow> Inl e
           | Inr w' \<Rightarrow> send_conns qsend w' out conns msg))"

definition send ::
  "('m \<Rightarrow> 'q \<Rightarrow> 'q option) \<Rightarrow> 'q World \<Rightarrow> Output \<Rightarrow> 'm \<Rightarrow> error + 'q World" where
  "send qsend w out msg =
     (case Output_getConnections w out of
        Inl e \<Rightarrow> Inl e
      | Inr conns \<Rightarrow> send_conns qsend w out conns msg)"

fun trySend_inputs ::
  "('m \<Rightarrow> 'q \<Rightarrow> bool \<times> 'q) \<Rightarrow> 'q World \<Rightarrow> InputPtr list \<Rightarrow> Connection \<Rightarrow> 'm \<Rightarrow> bool
    \<Rightarrow> error + bool \<times> 'q World" where
  "trySend_inputs qtrySend w [] conn msg success = Inr (success, w)"
| "trySend_inputs qtrySend w (input # inputs') conn msg success =
     (case derefInput w input of
        None \<Rightarrow> Inl DanglingRef
      | Some i \<Rightarrow>
          if Input.group i = inputGroup conn \<and> Input.name i = inputName conn then
            (case qtrySend msg (queue i) of
               (ok, q') \<Rightarrow>
                 trySend_inputs qtrySend (storeInput w input (i\<lparr>queue := q'\<rparr>)) inputs' conn msg
                   (success \<and> ok))
          else trySend_inputs qtrySend w inputs' conn msg success)"

fun trySend_conns ::
  "('m \<Rightarrow> 'q \<Rightarrow> bool \<times> 'q) \<Rightarrow> 'q World \<Rightarrow> Output \<Rightarrow> Connection list \<Rightarrow> 'm \<Rightarrow> bool
    \<Rightarrow> error + bool \<times> 'q World" where
  "trySend_conns qtrySend w out [] msg success = Inr (success, w)"
| "trySend_conns qtrySend w out (conn # conns) msg success =
     (case resolveInputs w out conn of
        Inl e \<Rightarrow> Inl e
      | Inr inputs' \<Rightarrow>
          (case trySend_inputs qtrySend w inputs' conn msg success of
             Inl e \<Rightarrow> Inl e
           | Inr (success', w') \<Rightarrow> trySend_conns qtrySend w' out conns msg success'))"

definition trySend ::
  "('m \<Rightarrow> 'q \<Rightarrow> bool \<times> 'q) \<Rightarrow> 'q World \<Rightarrow> Output \<Rightarrow> 'm \<Rightarrow> error + bool \<times> 'q World" where
  "trySend qtrySend w out msg =
     (case Output_getConnections w out of
        Inl e \<Rightarrow> Inl e
      | Inr conns \<Rightarrow> trySend_conns qtrySend w out conns msg True)"

subsection \<open>What a fan-out is compared with\<close>

text \<open>An input pointer matches a connection when the input it points to carries the
  connection's input group and input name.\<close>

definition matchesConn :: "'q World \<Rightarrow> Connection \<Rightarrow> InputPtr \<Rightarrow> bool" where
  "matchesConn w conn p =
     (case derefInput w p of
        None \<Rightarrow> False
      | Some i \<Rightarrow> Input.group i = inputGroup conn \<and> Input.name i = inputName conn)"

definition validPtr :: "'q World \<Rightarrow> InputPtr \<Rightarrow> bool" where
  "validPtr w p = (case derefInput w p of None \<Rightarrow> False | Some i \<Rightarrow> True)"

text \<open>The inputs one connection selects: all matching inputs of the resolved node, in
  enumeration order.\<close>

definition matchedInputs_conn :: "'q World \<Rightarrow> Output \<Rightarrow> Connection \<Rightarrow> error + InputPtr list" where
  "matchedInputs_conn w out conn =
     (case resolveInputs w out conn of
        Inl e \<Rightarrow> Inl e
      | Inr ptrs \<Rightarrow>
          if list_all (validPtr w) ptrs then Inr (filter (matchesConn w conn) ptrs)
          else Inl DanglingRef)"

fun matchedInputs_conns :: "'q World \<Rightarrow> Output \<Rightarrow> Connection list \<Rightarrow> error + InputPtr list" where
  "matchedInputs_conns w out [] = Inr []"
| "matchedInputs_conns w out (conn # conns) =
     (case matchedInputs_conn w out conn of
        Inl e \<Rightarrow> Inl e
      | Inr ts \<Rightarrow>
          (case matchedInputs_conns w out conns of
             Inl e \<Rightarrow> Inl e
           | Inr ts' \<Rightarrow> Inr (ts @ ts')))"

definition matchedInputs :: "'q World \<Rightarrow> Output \<Rightarrow> error + InputPtr list" where
  "matchedInputs w out =
     (case Output_getConnections w out of
        Inl e \<Rightarrow> Inl e
      | Inr conns \<Rightarrow> matchedInputs_conns w out conns)"

text \<open>One non-blocking delivery to the input behind a pointer, and a run of them over
  a list of pointers that collects every flag.\<close>

definition tryDeliver :: "('m \<Rightarrow> 'q \<Rightarrow> bool \<times> 'q) \<Rightarrow> 'm \<Rightarrow> 'q World \<Rightarrow> InputPtr \<Rightarrow> bool \<times> 'q World" where
  "tryDeliver qtrySend msg w p =
     (case derefInput w p of
        None \<Rightarrow> (False, w)
      | Some i \<Rightarrow>
          (case qtrySend msg (queue i) of (ok, q') \<Rightarrow> (ok, storeInput w p (i\<lparr>queue := q'\<rparr>))))"

fun attempt_all ::
  "('m \<Rightarrow> 'q \<Rightarrow> bool \<times> 'q) \<Rightarrow> 'm \<Rightarrow> 'q World \<Rightarrow> InputPtr list \<Rightarrow> bool list \<times> 'q World" where
  "attempt_all qtrySend msg w [] = ([], w)"
| "attempt_all qtrySend msg w (p # ps) =
     (case tryDeliver qtrySend msg w p of
        (ok, w') \<Rightarrow>
          (case attempt_all qtrySend msg w' ps of (oks, w'') \<Rightarrow> (ok # oks, w'')))"

text \<open>The flag a non-blocking delivery to the input behind \<open>p\<close> returns in store \<open>w\<close>.\<close>

definition flagOf :: "('m \<Rightarrow> 'q \<Rightarrow> bool \<times> 'q) \<Rightarrow> 'm \<Rightarrow> 'q World \<Rightarrow> InputPtr \<Rightarrow> bool" where
  "flagOf qtrySend msg w p =
     (case derefInput w p of None \<Rightarrow> False | Some i \<Rightarrow> fst (qtrySend msg (queue i)))"

text \<open>One blocking delivery, and a run of them that stops where one blocks.\<close>

definition deliver :: "('m \<Rightarrow> 'q \<Rightarrow> 'q option) \<Rightarrow> 'm \<Rightarrow> 'q World \<Rightarrow> InputPtr \<Rightarrow> error + 'q World" where
  "deliver qsend msg w p =
     (case derefInput w p of
        None \<Rightarrow> Inl DanglingRef
      | Some i \<Rightarrow>
          (case qsend msg (queue i) of
             None \<Rightarrow> Inl Blocked
           | Some q' \<Rightarrow> Inr (storeInput w p (i\<lparr>queue := q'\<rparr>))))"

fun deliver_all ::
  "('m \<Rightarrow> 'q \<Rightarrow> 'q option) \<Rightarrow> 'm \<Rightarrow> 'q World \<Rightarrow> InputPtr list \<Rightarrow> error + 'q World" where
  "deliver_all qsend msg w [] = Inr w"
| "deliver_all qsend msg w (p # ps) =
     (case deliver qsend msg w p of
        Inl e \<Rightarrow> Inl e
      | Inr w' \<Rightarrow> deliver_all qsend msg w' ps)"

subsection \<open>A bounded queue for concrete runs\<close>

text \<open>
  Modelled from the spec: the queue of an input is bounded; a non-blocking send to a
  full queue is rejected and reports failure, a blocking send to a full queue blocks.
  The queue is the list of its messages, oldest first, and its capacity.
\<close>

type_synonym 'm bqueue = "'m list \<times> nat"

definition bq_trySend :: "'m \<Rightarrow> 'm bqueue \<Rightarrow> bool \<times> 'm bqueue" where
  "bq_trySend msg q =
     (if length (fst q) < snd q then (True, (fst q @ [msg], snd q)) else (False, q))"

definition bq_send :: "'m \<Rightarrow> 'm bqueue \<Rightarrow> 'm bqueue option" where
  "bq_send msg q =
     (if length (fst q) < snd q then Some (fst q @ [msg], snd q) else None)"

section \<open>What a delivery leaves alone\<close>

text \<open>
  A delivery writes the queue of one input.  Two stores have the same wiring when they
  hold the same pipelines and nodes, their input groups hold the same keys in the same
  order, and every input pointer reaches an input of the same group and name (or none)
  in both.  These two definitions serve the proofs only.
\<close>

definition portKey :: "'q Input \<Rightarrow> string \<times> string" where
  "portKey i = (Input.group i, Input.name i)"

definition same_wiring :: "'q World \<Rightarrow> 'q World \<Rightarrow> bool" where
  "same_wiring w w' \<longleftrightarrow>
     pipelines w' = pipelines w \<and> nodes w' = nodes w \<and>
     (\<forall>ma. map_option (\<lambda>m. map fst (InputMap.entries m)) (inputMaps w' ma)
          = map_option (\<lambda>m. map fst (InputMap.entries m)) (inputMaps w ma)) \<and>
     (\<forall>p. map_option portKey (derefInput w' p) = map_option portKey (derefInput w p))"

section \<open>A concrete pipeline\<close>

text \<open>
  One pipeline (at address 100) with a producer node (id 1, at 10) and a consumer node
  (id 2, at 20), and a node (id 3, at 30) whose pipeline (at 200) is gone.  The producer
  has the outputs \<open>out\<close>, \<open>aux\<close> and \<open>idle\<close> and the output group \<open>outs\<close>.  The consumer has
  the inputs \<open>a\<close> (room for four messages) and \<open>b\<close> (no room), the input group \<open>ins\<close> with
  the port \<open>c\<close>, and a group whose name is the empty string and that holds a port \<open>a\<close>:
  this port has the empty group and the name \<open>a\<close>, as the singular input \<open>a\<close> has.  The output
  \<open>out\<close> is linked to \<open>a\<close>, \<open>b\<close> and \<open>ins["c"]\<close>, \<open>aux\<close> to \<open>a\<close> and \<open>ins["c"]\<close>, \<open>idle\<close> to nothing.
  The store also holds a second output object that carries the name \<open>out\<close> and is in no
  table, and there is a node without any registration.
\<close>

definition ex_input :: "string \<Rightarrow> string \<Rightarrow> addr \<Rightarrow> nat \<Rightarrow> nat bqueue Input" where
  "ex_input g n pa cap =
     \<lparr>Input.name = n, group = g, parent = pa, queue = ([], cap), blocking = None,
      queueSize = None, waitForMessage = None, defaultBlocking = True,
      defaultQueueSize = 8, defaultWaitForMessage = False\<rparr>"

definition ex_out :: Output where
  "ex_out = \<lparr>Output.name = ''out'', group = [], parent = 10\<rparr>"

definition ex_aux :: Output where
  "ex_aux = \<lparr>Output.name = ''aux'', group = [], parent = 10\<rparr>"

definition ex_idle :: Output where
  "ex_idle = \<lparr>Output.name = ''idle'', group = [], parent = 10\<rparr>"

definition ex_lost :: Output where
  "ex_lost = \<lparr>Output.name = ''lost'', group = [], parent = 30\<rparr>"

definition ex_twin :: Output where
  "ex_twin = \<lparr>Output.name = ''out'', group = [], parent = 10\<rparr>"

definition ex_conn :: "string \<Rightarrow> Id \<Rightarrow> string \<Rightarrow> string \<Rightarrow> Connection" where
  "ex_conn oname iid igroup iname =
     \<lparr>outputId = 1, outputName = oname, outputGroup = [], inputId = iid,
      inputName = iname, inputGroup = igroup\<rparr>"

definition ex_conns :: "Connection list" where
  "ex_conns =
     [ex_conn ''out'' 2 [] ''a'', ex_conn ''aux'' 2 [] ''a'', ex_conn ''out'' 2 [] ''b'',
      ex_conn ''aux'' 2 ''ins'' ''c'', ex_conn ''out'' 2 ''ins'' ''c'']"

definition ex_pipeline :: PipelineImpl where
  "ex_pipeline = \<lparr>nodeMap = [1 \<mapsto> 10, 2 \<mapsto> 20], connections = ex_conns\<rparr>"

definition ex_producer :: Node where
  "ex_producer =
     \<lparr>id_node = 1, parent = Some 100,
      outputRefs = [(''out'', OutputObj 1), (''aux'', OutputObj 2), (''idle'', OutputObj 3)],
      inputRefs = [], outputMapRefs = [(''outs'', 7)], inputMapRefs = []\<rparr>"

definition ex_consumer :: Node where
  "ex_consumer =
     \<lparr>id_node = 2, parent = Some 100, outputRefs = [],
      inputRefs = [(''a'', InputObj 1), (''b'', InputObj 2)],
      outputMapRefs = [], inputMapRefs = [(''ins'', 5), ([], 6)]\<rparr>"

definition ex_orphan :: Node where
  "ex_orphan =
     \<lparr>id_node = 3, parent = Some 200, outputRefs = [(''lost'', OutputObj 4)],
      inputRefs = [(''z'', InputObj 3)], outputMapRefs = [], inputMapRefs = []\<rparr>"

definition ex_bare :: Node where
  "ex_bare =
     \<lparr>id_node = 4, parent = Some 100, outputRefs = [], inputRefs = [],
      outputMapRefs = [], inputMapRefs = []\<rparr>"

definition ex_outs :: OutputMap where
  "ex_outs =
     \<lparr>defaultOutput = \<lparr>Output.name = [], group = [], parent = 10\<rparr>, name = ''outs'',
      entries = [(''x'', \<lparr>Output.name = ''x'', group = ''outs'', parent = 10\<rparr>),
                 (''y'', \<lparr>Output.name = ''y'', group = ''outs'', parent = 10\<rparr>)]\<rparr>"

definition ex_ins :: "nat bqueue InputMap" where
  "ex_ins =
     \<lparr>defaultInput = ex_input [] [] 20 4, name = ''ins'',
      entries = [(''c'', ex_input ''ins'' ''c'' 20 4)]\<rparr>"

definition ex_unnamed :: "nat bqueue InputMap" where
  "ex_unnamed =
     \<lparr>defaultInput = ex_input [] [] 20 4, name = [],
      entries = [(''a'', ex_input [] ''a'' 20 4)]\<rparr>"

definition ex_world :: "nat bqueue World" where
  "ex_world =
     \<lparr>pipelines = [100 \<mapsto> ex_pipeline],
      nodes = [10 \<mapsto> ex_producer, 20 \<mapsto> ex_consumer, 30 \<mapsto> ex_orphan],
      outputs = [1 \<mapsto> ex_out, 2 \<mapsto> ex_aux, 3 \<mapsto> ex_idle, 4 \<mapsto> ex_lost, 5 \<mapsto> ex_twin],
      inputs = [1 \<mapsto> ex_input [] ''a'' 20 4, 2 \<mapsto> ex_input [] ''b'' 20 0,
                3 \<mapsto> ex_input [] ''z'' 30 4],
      outputMaps = [7 \<mapsto> ex_outs],
      inputMaps = [5 \<mapsto> ex_ins, 6 \<mapsto> ex_unnamed]\<rparr>"



text \<open>The same store, with a first connection of \<open>aux\<close> to node 9, which is not registered.\<close>

definition ex_world_stale :: "nat bqueue World" where
  "ex_world_stale =
     ex_world\<lparr>pipelines :=
       [100 \<mapsto> ex_pipeline\<lparr>connections := ex_conn ''aux'' 9 [] ''a'' # ex_conns\<rparr>]\<rparr>"

section \<open>Deliveries preserve the wiring\<close>

lemma same_wiring_refl: "same_wiring w w"
  by (simp add: same_wiring_def)

lemma same_wiring_trans: "same_wiring w w' \<Longrightarrow> same_wiring w' w'' \<Longrightarrow> same_wiring w w''"
  by (simp add: same_wiring_def)

lemma map_fst_modify_om: "map fst (modify_om m k f) = map fst m"
  by (induction m) auto

lemma map_of_modify_om:
  "map_of (modify_om m k f) k' = (if k' = k then map_option f (map_of m k) else map_of m k')"
  by (induction m) auto

lemma same_wiring_storeInput:
  assumes "derefInput w p = Some i" and "portKey j = portKey i"
  shows "same_wiring w (storeInput w p j)"
proof (cases p)
  case (InputObj a)
  have "map_option portKey (derefInput (storeInput w p j) p') = map_option portKey (derefInput w p')" for p'
    using assms InputObj by (cases p') auto
  then show ?thesis using InputObj by (simp add: same_wiring_def)
next
  case (InputElem ma k)
  from assms InputElem obtain m where m: "inputMaps w ma = Some m" "map_of (InputMap.entries m) k = Some i"
    by (auto split: option.splits)
  have "map_option portKey (derefInput (storeInput w p j) p') = map_option portKey (derefInput w p')" for p'
    using assms(2) InputElem m by (cases p') (auto simp: map_of_modify_om)
  then show ?thesis using InputElem m by (simp add: same_wiring_def map_fst_modify_om)
qed

lemma same_wiring_queue:
  "derefInput w p = Some i \<Longrightarrow> same_wiring w (storeInput w p (i\<lparr>queue := q\<rparr>))"
  by (rule same_wiring_storeInput) (simp_all add: portKey_def)

lemma same_wiring_matchesConn:
  assumes "same_wiring w w'" shows "matchesConn w' conn = matchesConn w conn"
proof
  fix p
  from assms have "map_option portKey (derefInput w' p) = map_option portKey (derefInput w p)"
    by (simp add: same_wiring_def)
  then show "matchesConn w' conn p = matchesConn w conn p"
    by (cases "derefInput w p"; cases "derefInput w' p") (auto simp: matchesConn_def portKey_def)
qed

lemma same_wiring_validPtr:
  assumes "same_wiring w w'" shows "validPtr w' = validPtr w"
proof
  fix p
  from assms have "map_option portKey (derefInput w' p) = map_option portKey (derefInput w p)"
    by (simp add: same_wiring_def)
  then show "validPtr w' p = validPtr w p"
    by (cases "derefInput w p"; cases "derefInput w' p") (auto simp: validPtr_def)
qed

lemma getInputRefs_elems_append:
  "getInputRefs_elems ma es tmp = tmp @ map (InputElem ma) (map fst es)"
  by (induction es arbitrary: tmp) auto


lemma same_wiring_getInputRefs_maps:
  assumes "same_wiring w w'"
  shows "getInputRefs_maps w' ms tmp = getInputRefs_maps w ms tmp"
proof (induction ms arbitrary: tmp)
  case Nil
  then show ?case by simp
next
  case (Cons kvMap ms)
  from assms have e: "map_option (\<lambda>m. map fst (InputMap.entries m)) (inputMaps w' (snd kvMap))
          = map_option (\<lambda>m. map fst (InputMap.entries m)) (inputMaps w (snd kvMap))"
    by (simp add: same_wiring_def)
  show ?case
  proof (cases "inputMaps w (snd kvMap)")
    case None
    with e show ?thesis by simp
  next
    case (Some m)
    with e obtain m' where m': "inputMaps w' (snd kvMap) = Some m'"
      "map fst (InputMap.entries m') = map fst (InputMap.entries m)" by auto
    show ?thesis using Some m' Cons.IH by (simp add: getInputRefs_elems_append del: map_map)
  qed
qed

lemma same_wiring_resolveInputs:
  assumes "same_wiring w w'"
  shows "resolveInputs w' out conn = resolveInputs w out conn"
proof -
  have 1: "pipelines w' = pipelines w" "nodes w' = nodes w" using assms by (simp_all add: same_wiring_def)
  have 2: "getParentPipeline w' n = getParentPipeline w n" for n
    by (simp add: getParentPipeline_def lock_def 1 cong: option.case_cong)
  have 3: "getInputRefs w' n = getInputRefs w n" for n
    by (simp add: getInputRefs_def same_wiring_getInputRefs_maps[OF assms])
  show ?thesis by (simp add: resolveInputs_def 1 2 3 cong: option.case_cong sum.case_cong)
qed

lemma same_wiring_matchedInputs_conn:
  assumes "same_wiring w w'"
  shows "matchedInputs_conn w' out conn = matchedInputs_conn w out conn"
proof -
  have "validPtr w' = validPtr w" "matchesConn w' conn = matchesConn w conn"
    using assms by (rule same_wiring_validPtr, rule same_wiring_matchesConn)
  then show ?thesis
    by (simp add: matchedInputs_conn_def same_wiring_resolveInputs[OF assms] cong: sum.case_cong if_cong)
qed

lemma same_wiring_matchedInputs_conns:
  assumes "same_wiring w w'"
  shows "matchedInputs_conns w' out conns = matchedInputs_conns w out conns"
  by (induction conns) (simp_all add: same_wiring_matchedInputs_conn[OF assms] cong: sum.case_cong)

lemma same_wiring_tryDeliver: "same_wiring w (snd (tryDeliver qt msg w p))"
  by (auto simp: tryDeliver_def same_wiring_refl same_wiring_queue split: option.splits prod.splits)

lemma same_wiring_attempt_all: "same_wiring w (snd (attempt_all qt msg w ps))"
proof (induction ps arbitrary: w)
  case Nil
  then show ?case by (simp add: same_wiring_refl)
next
  case (Cons p ps)
  have "same_wiring w (snd (tryDeliver qt msg w p))" by (rule same_wiring_tryDeliver)
  moreover have "same_wiring (snd (tryDeliver qt msg w p)) (snd (attempt_all qt msg (snd (tryDeliver qt msg w p)) ps))"
    by (rule Cons.IH)
  ultimately show ?case
    by (auto split: prod.splits intro: same_wiring_trans)
qed

lemma attempt_all_append:
  "attempt_all qt msg w (ps @ ps') =
     (case attempt_all qt msg w ps of
        (oks, w') \<Rightarrow> (case attempt_all qt msg w' ps' of (oks', w'') \<Rightarrow> (oks @ oks', w'')))"
  by (induction ps arbitrary: w) (auto split: prod.splits)

lemma length_attempt_all: "length (fst (attempt_all qt msg w ps)) = length ps"
proof (induction ps arbitrary: w)
  case Nil
  then show ?case by simp
next
  case (Cons p ps)
  obtain ok w1 where 1: "tryDeliver qt msg w p = (ok, w1)"
    by (cases "tryDeliver qt msg w p")
  obtain oks w2 where 2: "attempt_all qt msg w1 ps = (oks, w2)"
    by (cases "attempt_all qt msg w1 ps")
  have "length (fst (attempt_all qt msg w1 ps)) = length ps" by (rule Cons.IH)
  with 1 2 show ?case by simp
qed

lemma trySend_inputs_attempt_all:
  assumes "list_all (validPtr w) ptrs"
  shows "trySend_inputs qt w ptrs conn msg s =
     (case attempt_all qt msg w (filter (matchesConn w conn) ptrs) of
        (oks, w') \<Rightarrow> Inr (s \<and> list_all (\<lambda>b. b) oks, w'))"
  using assms
proof (induction ptrs arbitrary: w s)
  case Nil
  then show ?case by simp
next
  case (Cons p ptrs)
  from Cons.prems obtain i where i: "derefInput w p = Some i"
    by (auto simp: validPtr_def split: option.splits)
  show ?case
  proof (cases "matchesConn w conn p")
    case False
    with i Cons show ?thesis by (auto simp: matchesConn_def)
  next
    case True
    obtain ok q' where q: "qt msg (queue i) = (ok, q')" by (cases "qt msg (queue i)")
    define w1 where "w1 = storeInput w p (i\<lparr>queue := q'\<rparr>)"
    have sw: "same_wiring w w1" unfolding w1_def using i by (rule same_wiring_queue)
    have v: "list_all (validPtr w1) ptrs"
      using Cons.prems by (simp add: same_wiring_validPtr[OF sw])
    have f: "filter (matchesConn w1 conn) ptrs = filter (matchesConn w conn) ptrs"
      by (simp add: same_wiring_matchesConn[OF sw])
    have td: "tryDeliver qt msg w p = (ok, w1)"
      by (simp add: tryDeliver_def i q w1_def)
    have "trySend_inputs qt w (p # ptrs) conn msg s = trySend_inputs qt w1 ptrs conn msg (s \<and> ok)"
      using True i q by (simp add: matchesConn_def w1_def)
    also have "\<dots> = (case attempt_all qt msg w1 (filter (matchesConn w conn) ptrs) of
        (oks, w') \<Rightarrow> Inr ((s \<and> ok) \<and> list_all (\<lambda>b. b) oks, w'))"
      using Cons.IH[OF v] f by simp
    finally show ?thesis using True td by (auto split: prod.splits)
  qed
qed

lemma trySend_conns_attempt_all:
  assumes "matchedInputs_conns w out conns = Inr ts"
  shows "trySend_conns qt w out conns msg s =
     (case attempt_all qt msg w ts of (oks, w') \<Rightarrow> Inr (s \<and> list_all (\<lambda>b. b) oks, w'))"
  using assms
proof (induction conns arbitrary: w s ts)
  case Nil
  then show ?case by simp
next
  case (Cons conn conns)
  from Cons.prems obtain ptrs t2 where
    r: "resolveInputs w out conn = Inr ptrs" and v: "list_all (validPtr w) ptrs"
    and t2: "matchedInputs_conns w out conns = Inr t2"
    and ts: "ts = filter (matchesConn w conn) ptrs @ t2"
    by (auto simp: matchedInputs_conn_def split: sum.splits if_splits)
  obtain oks1 w1 where a1: "attempt_all qt msg w (filter (matchesConn w conn) ptrs) = (oks1, w1)"
    by (cases "attempt_all qt msg w (filter (matchesConn w conn) ptrs)")
  have sw: "same_wiring w w1" using same_wiring_attempt_all[of w qt msg "filter (matchesConn w conn) ptrs"] a1 by simp
  have t2': "matchedInputs_conns w1 out conns = Inr t2"
    using t2 by (simp add: same_wiring_matchedInputs_conns[OF sw])
  have "trySend_conns qt w out (conn # conns) msg s = trySend_conns qt w1 out conns msg (s \<and> list_all (\<lambda>b. b) oks1)"
    using r a1 by (simp add: trySend_inputs_attempt_all[OF v])
  also have "\<dots> = (case attempt_all qt msg w1 t2 of (oks, w') \<Rightarrow> Inr ((s \<and> list_all (\<lambda>b. b) oks1) \<and> list_all (\<lambda>b. b) oks, w'))"
    by (rule Cons.IH[OF t2'])
  finally show ?case using a1 by (auto simp: ts attempt_all_append split: prod.splits)
qed

section \<open>The loops of \<open>send\<close> as runs of deliveries\<close>

lemma same_wiring_deliver: "deliver qs msg w p = Inr w' \<Longrightarrow> same_wiring w w'"
  by (auto simp: deliver_def same_wiring_queue split: option.splits)

lemma same_wiring_deliver_all: "deliver_all qs msg w ps = Inr w' \<Longrightarrow> same_wiring w w'"
proof (induction ps arbitrary: w)
  case Nil
  then show ?case by (simp add: same_wiring_refl)
next
  case (Cons p ps)
  then obtain w1 where 1: "deliver qs msg w p = Inr w1" and 2: "deliver_all qs msg w1 ps = Inr w'"
    by (auto split: sum.splits)
  from same_wiring_deliver[OF 1] Cons.IH[OF 2] show ?case by (rule same_wiring_trans)
qed

lemma deliver_all_append:
  "deliver_all qs msg w (ps @ ps') =
     (case deliver_all qs msg w ps of Inl e \<Rightarrow> Inl e | Inr w' \<Rightarrow> deliver_all qs msg w' ps')"
  by (induction ps arbitrary: w) (auto split: sum.splits)

lemma send_inputs_deliver_all:
  assumes "list_all (validPtr w) ptrs"
  shows "send_inputs qs w ptrs conn msg = deliver_all qs msg w (filter (matchesConn w conn) ptrs)"
  using assms
proof (induction ptrs arbitrary: w)
  case Nil
  then show ?case by simp
next
  case (Cons p ptrs)
  from Cons.prems obtain i where i: "derefInput w p = Some i"
    by (auto simp: validPtr_def split: option.splits)
  show ?case
  proof (cases "matchesConn w conn p")
    case False
    with i Cons show ?thesis by (auto simp: matchesConn_def)
  next
    case True
    show ?thesis
    proof (cases "qs msg (queue i)")
      case None
      with True i show ?thesis by (simp add: matchesConn_def deliver_def)
    next
      case (Some q')
      define w1 where "w1 = storeInput w p (i\<lparr>queue := q'\<rparr>)"
      have sw: "same_wiring w w1" unfolding w1_def using i by (rule same_wiring_queue)
      have v: "list_all (validPtr w1) ptrs"
        using Cons.prems by (simp add: same_wiring_validPtr[OF sw])
      have d: "deliver qs msg w p = Inr w1"
        by (simp add: deliver_def i Some w1_def)
      have "send_inputs qs w (p # ptrs) conn msg = send_inputs qs w1 ptrs conn msg"
        using True i Some by (simp add: matchesConn_def w1_def)
      also have "\<dots> = deliver_all qs msg w1 (filter (matchesConn w conn) ptrs)"
        using Cons.IH[OF v] by (simp add: same_wiring_matchesConn[OF sw])
      finally show ?thesis using True d by simp
    qed
  qed
qed

lemma send_conns_deliver_all:
  assumes "matchedInputs_conns w out conns = Inr ts"
  shows "send_conns qs w out conns msg = deliver_all qs msg w ts"
  using assms
proof (induction conns arbitrary: w ts)
  case Nil
  then show ?case by simp
next
  case (Cons conn conns)
  from Cons.prems obtain ptrs t2 where
    r: "resolveInputs w out conn = Inr ptrs" and v: "list_all (validPtr w) ptrs"
    and t2: "matchedInputs_conns w out conns = Inr t2"
    and ts: "ts = filter (matchesConn w conn) ptrs @ t2"
    by (auto simp: matchedInputs_conn_def split: sum.splits if_splits)
  show ?case
  proof (cases "deliver_all qs msg w (filter (matchesConn w conn) ptrs)")
    case (Inl e)
    then show ?thesis using r by (simp add: send_inputs_deliver_all[OF v] ts deliver_all_append)
  next
    case (Inr w1)
    have sw: "same_wiring w w1" using Inr by (rule same_wiring_deliver_all)
    have t2': "matchedInputs_conns w1 out conns = Inr t2"
      using t2 by (simp add: same_wiring_matchedInputs_conns[OF sw])
    have "send_conns qs w out (conn # conns) msg = send_conns qs w1 out conns msg"
      using r Inr by (simp add: send_inputs_deliver_all[OF v])
    also have "\<dots> = deliver_all qs msg w1 t2" by (rule Cons.IH[OF t2'])
    finally show ?thesis using Inr by (simp add: ts deliver_all_append)
  qed
qed

lemma send_conns_unresolved:
  assumes "matchedInputs_conns w out conns = Inr ts"
    and "deliver_all qs msg w ts = Inr w1"
    and "resolveInputs w out conn = Inl e"
  shows "send_conns qs w out (conns @ conn # rest) msg = Inl e"
  using assms
proof (induction conns arbitrary: w ts)
  case Nil
  then show ?case by simp
next
  case (Cons c conns)
  from Cons.prems(1) obtain ptrs t2 where
    r: "resolveInputs w out c = Inr ptrs" and v: "list_all (validPtr w) ptrs"
    and t2: "matchedInputs_conns w out conns = Inr t2"
    and ts: "ts = filter (matchesConn w c) ptrs @ t2"
    by (auto simp: matchedInputs_conn_def split: sum.splits if_splits)
  from Cons.prems(2) obtain w0 where
    d1: "deliver_all qs msg w (filter (matchesConn w c) ptrs) = Inr w0"
    and d2: "deliver_all qs msg w0 t2 = Inr w1"
    by (auto simp: ts deliver_all_append split: sum.splits)
  have sw: "same_wiring w w0" using d1 by (rule same_wiring_deliver_all)
  have t2': "matchedInputs_conns w0 out conns = Inr t2"
    using t2 by (simp add: same_wiring_matchedInputs_conns[OF sw])
  have r': "resolveInputs w0 out conn = Inl e"
    using Cons.prems(3) by (simp add: same_wiring_resolveInputs[OF sw])
  have "send_conns qs w out ((c # conns) @ conn # rest) msg = send_conns qs w0 out (conns @ conn # rest) msg"
    using r d1 by (simp add: send_inputs_deliver_all[OF v])
  also have "\<dots> = Inl e" by (rule Cons.IH[OF t2' d2 r'])
  finally show ?case .
qed

section \<open>Deliveries to pairwise different inputs\<close>

lemma derefInput_storeInput:
  assumes "derefInput w p = Some i0"
  shows "derefInput (storeInput w p j) p' = (if p' = p then Some j else derefInput w p')"
proof (cases p)
  case (InputObj a)
  then show ?thesis by (cases p') auto
next
  case (InputElem ma k)
  from assms InputElem obtain m where m: "inputMaps w ma = Some m" "map_of (InputMap.entries m) k = Some i0"
    by (auto split: option.splits)
  show ?thesis using InputElem m by (cases p') (auto simp: map_of_modify_om)
qed

lemma attempt_all_distinct:
  assumes "distinct ps" and "list_all (validPtr w) ps"
  shows "fst (attempt_all qt msg w ps) = map (flagOf qt msg w) ps \<and>
    (\<forall>p. derefInput (snd (attempt_all qt msg w ps)) p =
       (if p \<in> set ps then map_option (\<lambda>i. i\<lparr>queue := snd (qt msg (queue i))\<rparr>) (derefInput w p)
        else derefInput w p))"
  using assms
proof (induction ps arbitrary: w)
  case Nil
  then show ?case by simp
next
  case (Cons p ps)
  from Cons.prems obtain i where i: "derefInput w p = Some i"
    by (auto simp: validPtr_def split: option.splits)
  obtain ok q' where q: "qt msg (queue i) = (ok, q')" by (cases "qt msg (queue i)")
  define w1 where "w1 = storeInput w p (i\<lparr>queue := q'\<rparr>)"
  have sw: "same_wiring w w1" unfolding w1_def using i by (rule same_wiring_queue)
  have td: "tryDeliver qt msg w p = (ok, w1)" by (simp add: tryDeliver_def i q w1_def)
  have d1: "derefInput w1 x = (if x = p then Some (i\<lparr>queue := q'\<rparr>) else derefInput w x)" for x
    unfolding w1_def using i by (rule derefInput_storeInput)
  have v: "list_all (validPtr w1) ps" using Cons.prems by (simp add: same_wiring_validPtr[OF sw])
  have dist: "distinct ps" "p \<notin> set ps" using Cons.prems by auto
  note IH = Cons.IH[OF dist(1) v]
  have fl: "map (flagOf qt msg w1) ps = map (flagOf qt msg w) ps"
    using dist(2) by (auto simp: flagOf_def d1)
  obtain oks w2 where a: "attempt_all qt msg w1 ps = (oks, w2)" by (cases "attempt_all qt msg w1 ps")
  have 1: "fst (attempt_all qt msg w (p # ps)) = map (flagOf qt msg w) (p # ps)"
    using IH a td fl by (simp add: flagOf_def i q)
  have 2: "derefInput (snd (attempt_all qt msg w (p # ps))) x =
       (if x \<in> set (p # ps) then map_option (\<lambda>i. i\<lparr>queue := snd (qt msg (queue i))\<rparr>) (derefInput w x)
        else derefInput w x)" for x
  proof -
    have "derefInput (snd (attempt_all qt msg w (p # ps))) x = derefInput w2 x" using td a by simp
    also have "\<dots> = (if x \<in> set ps then map_option (\<lambda>i. i\<lparr>queue := snd (qt msg (queue i))\<rparr>) (derefInput w1 x)
        else derefInput w1 x)" using IH a by simp
    finally show ?thesis using dist(2) by (auto simp: d1 i q)
  qed
  from 1 2 show ?case by blast
qed

lemma deliver_all_distinct:
  assumes "distinct ps" and "deliver_all qs msg w ps = Inr w'"
  shows "\<forall>p. derefInput w' p =
       (if p \<in> set ps then
          (case derefInput w p of None \<Rightarrow> None
           | Some i \<Rightarrow> map_option (\<lambda>q'. i\<lparr>queue := q'\<rparr>) (qs msg (queue i)))
        else derefInput w p)"
  using assms
proof (induction ps arbitrary: w)
  case Nil
  then show ?case by simp
next
  case (Cons p ps)
  from Cons.prems(2) obtain w1 where 1: "deliver qs msg w p = Inr w1" and 2: "deliver_all qs msg w1 ps = Inr w'"
    by (auto split: sum.splits)
  from 1 obtain i q' where i: "derefInput w p = Some i" and q: "qs msg (queue i) = Some q'"
    and w1: "w1 = storeInput w p (i\<lparr>queue := q'\<rparr>)"
    by (auto simp: deliver_def split: option.splits)
  have d1: "derefInput w1 x = (if x = p then Some (i\<lparr>queue := q'\<rparr>) else derefInput w x)" for x
    unfolding w1 using i by (rule derefInput_storeInput)
  have dist: "distinct ps" "p \<notin> set ps" using Cons.prems by auto
  note IH = Cons.IH[OF dist(1) 2]
  show ?case
  proof
    fix x
    show "derefInput w' x =
       (if x \<in> set (p # ps) then
          (case derefInput w x of None \<Rightarrow> None
           | Some i \<Rightarrow> map_option (\<lambda>q'. i\<lparr>queue := q'\<rparr>) (qs msg (queue i)))
        else derefInput w x)"
      using IH[rule_format, of x] dist(2) by (auto simp: d1 i q)
  qed
qed

lemma matchedInputs_conns_valid:
  "matchedInputs_conns w out conns = Inr ts \<Longrightarrow> list_all (validPtr w) ts"
proof (induction conns arbitrary: ts)
  case Nil
  then show ?case by simp
next
  case (Cons conn conns)
  from Cons.prems obtain ptrs t2 where
    v: "list_all (validPtr w) ptrs"
    and t2: "matchedInputs_conns w out conns = Inr t2"
    and ts: "ts = filter (matchesConn w conn) ptrs @ t2"
    by (auto simp: matchedInputs_conn_def split: sum.splits if_splits)
  from v have "list_all (validPtr w) (filter (matchesConn w conn) ptrs)"
    by (simp add: list_all_iff)
  with Cons.IH[OF t2] show ?case by (simp add: ts)
qed

lemma deliver_all_valid:
  "deliver_all qs msg w ps = Inr w' \<Longrightarrow> p \<in> set ps \<Longrightarrow> validPtr w p"
proof (induction ps arbitrary: w)
  case Nil
  then show ?case by simp
next
  case (Cons a ps)
  from Cons.prems(1) obtain w1 where 1: "deliver qs msg w a = Inr w1"
    and 2: "deliver_all qs msg w1 ps = Inr w'"
    by (auto split: sum.splits)
  show ?case
  proof (cases "p = a")
    case True
    with 1 show ?thesis by (auto simp: deliver_def validPtr_def split: option.splits)
  next
    case False
    with Cons.prems(2) have "p \<in> set ps" by simp
    from Cons.IH[OF 2 this] have "validPtr w1 p" .
    then show ?thesis by (simp add: same_wiring_validPtr[OF same_wiring_deliver[OF 1]])
  qed
qed

lemma deliver_all_received:
  assumes "distinct ps" and "deliver_all qs msg w ps = Inr w'" and "p \<in> set ps"
  shows "\<exists>i q'. derefInput w p = Some i \<and> qs msg (queue i) = Some q'
           \<and> derefInput w' p = Some (i\<lparr>queue := q'\<rparr>)"
proof -
  from deliver_all_valid[OF assms(2,3)] obtain i where i: "derefInput w p = Some i"
    by (auto simp: validPtr_def split: option.splits)
  have "validPtr w' p"
    using deliver_all_valid[OF assms(2,3)]
    by (simp add: same_wiring_validPtr[OF same_wiring_deliver_all[OF assms(2)]])
  then obtain j where j: "derefInput w' p = Some j"
    by (auto simp: validPtr_def split: option.splits)
  from deliver_all_distinct[OF assms(1,2), rule_format, of p] assms(3) i j
  have "Some j = map_option (\<lambda>q'. i\<lparr>queue := q'\<rparr>) (qs msg (queue i))" by simp
  then obtain q' where "qs msg (queue i) = Some q'" "j = i\<lparr>queue := q'\<rparr>"
    by (cases "qs msg (queue i)") auto
  with i j show ?thesis by simp
qed

section \<open>Unfolding rules for concrete runs\<close>

lemmas ex_defs = ex_world_def ex_pipeline_def ex_conns_def ex_conn_def ex_out_def ex_aux_def
  ex_idle_def ex_lost_def ex_producer_def ex_consumer_def ex_orphan_def ex_input_def
  ex_world_stale_def ex_outs_def ex_ins_def ex_unnamed_def ex_twin_def ex_bare_def

lemmas fan_defs = matchedInputs_def Output_getConnections_def getParentPipeline_def lock_def
  matchedInputs_conn_def resolveInputs_def getNode_def getInputRefs_def validPtr_def
  matchesConn_def

lemmas run_defs = tryDeliver_def deliver_def bq_trySend_def bq_send_def

section \<open>The enumeration loops and the container operations\<close>









lemma map_of_append_fresh: "map_of m k = None \<Longrightarrow> map_of (m @ [(k, v)]) k = Some v"
  by (induction m) (auto split: if_splits)

lemma OutputMap_index_absent:
  "map_of (OutputMap.entries m) key = None \<Longrightarrow>
   OutputMap_index m key =
     Inr ((defaultOutput m)\<lparr>Output.group := OutputMap.name m, Output.name := key\<rparr>,
          m\<lparr>OutputMap.entries := OutputMap.entries m
               @ [(key, (defaultOutput m)\<lparr>Output.group := OutputMap.name m, Output.name := key\<rparr>)]\<rparr>)"
  by (simp add: OutputMap_index_def count_om_def insert_om_def at_om_def map_add_def)

lemma OutputMap_index_present:
  "map_of (OutputMap.entries m) key = Some p \<Longrightarrow> OutputMap_index m key = Inr (p, m)"
  by (simp add: OutputMap_index_def count_om_def at_om_def)

lemma OutputMap_index_lookup:
  "OutputMap_index m key = Inr (p, m') \<Longrightarrow> map_of (OutputMap.entries m') key = Some p"
  by (cases "map_of (OutputMap.entries m) key")
     (auto simp: OutputMap_index_absent OutputMap_index_present map_add_def)

lemma InputMap_index_absent:
  "map_of (InputMap.entries m) key = None \<Longrightarrow>
   InputMap_index m key =
     Inr ((defaultInput m)\<lparr>Input.group := InputMap.name m, Input.name := key\<rparr>,
          m\<lparr>InputMap.entries := InputMap.entries m
               @ [(key, (defaultInput m)\<lparr>Input.group := InputMap.name m, Input.name := key\<rparr>)]\<rparr>)"
  by (simp add: InputMap_index_def count_om_def insert_om_def at_om_def map_add_def)

lemma InputMap_index_present:
  "map_of (InputMap.entries m) key = Some p \<Longrightarrow> InputMap_index m key = Inr (p, m)"
  by (simp add: InputMap_index_def count_om_def at_om_def)

lemma InputMap_index_lookup:
  "InputMap_index m key = Inr (p, m') \<Longrightarrow> map_of (InputMap.entries m') key = Some p"
  by (cases "map_of (InputMap.entries m) key")
     (auto simp: InputMap_index_absent InputMap_index_present map_add_def)

lemma map_of_snoc_fresh: "map_of m k = None \<Longrightarrow> map_of (m @ [(k, v)]) = (map_of m)(k \<mapsto> v)"
  by (auto simp: map_add_def fun_eq_iff split: option.splits)

section \<open>Indexing a port group (C4)\<close>

text \<open>
  C4.  \<open>operator[]\<close> of an \<open>OutputMap\<close> and of an \<open>InputMap\<close>: for a key the group does
  not hold, the result is a copy of the default port with its group set to the name of
  the map and its name set to the key, and the group afterwards holds that port under
  the key and everything it held before; its default and its name are unchanged.  For a
  key the group holds, the result is the stored port and the group is unchanged.  The
  call always returns.  A second lookup of the same key returns the same port and changes
  nothing; and after any write \<open>f\<close> through the returned reference (a caller-set
  \<open>queueSize\<close>, say) a later lookup of the key returns the written port, not a fresh
  copy of the default.
\<close>

theorem map_index:
  "(map_of (OutputMap.entries om) key = None \<longrightarrow>
      (\<exists>om'. OutputMap_index om key =
               Inr ((defaultOutput om)\<lparr>Output.group := OutputMap.name om, Output.name := key\<rparr>, om')
         \<and> map_of (OutputMap.entries om') =
             (map_of (OutputMap.entries om))
               (key \<mapsto> (defaultOutput om)\<lparr>Output.group := OutputMap.name om, Output.name := key\<rparr>)
         \<and> defaultOutput om' = defaultOutput om \<and> OutputMap.name om' = OutputMap.name om))
   \<and> (map_of (OutputMap.entries om) key = Some op \<longrightarrow> OutputMap_index om key = Inr (op, om))
   \<and> (\<exists>p m'. OutputMap_index om key = Inr (p, m'))
   \<and> (OutputMap_index om key = Inr (op, om') \<longrightarrow> OutputMap_index om' key = Inr (op, om'))
   \<and> (OutputMap_index om key = Inr (op, om') \<longrightarrow>
        OutputMap_index (om'\<lparr>OutputMap.entries := modify_om (OutputMap.entries om') key f\<rparr>) key
          = Inr (f op, om'\<lparr>OutputMap.entries := modify_om (OutputMap.entries om') key f\<rparr>))
   \<and> (map_of (InputMap.entries im) key = None \<longrightarrow>
      (\<exists>im'. InputMap_index im key =
               Inr ((defaultInput im)\<lparr>Input.group := InputMap.name im, Input.name := key\<rparr>, im')
         \<and> map_of (InputMap.entries im') =
             (map_of (InputMap.entries im))
               (key \<mapsto> (defaultInput im)\<lparr>Input.group := InputMap.name im, Input.name := key\<rparr>)
         \<and> defaultInput im' = defaultInput im \<and> InputMap.name im' = InputMap.name im))
   \<and> (map_of (InputMap.entries im) key = Some ip \<longrightarrow> InputMap_index im key = Inr (ip, im))
   \<and> (\<exists>p m'. InputMap_index im key = Inr (p, m'))
   \<and> (InputMap_index im key = Inr (ip, im') \<longrightarrow> InputMap_index im' key = Inr (ip, im'))
   \<and> (InputMap_index im key = Inr (ip, im') \<longrightarrow>
        InputMap_index (im'\<lparr>InputMap.entries := modify_om (InputMap.entries im') key g\<rparr>) key
          = Inr (g ip, im'\<lparr>InputMap.entries := modify_om (InputMap.entries im') key g\<rparr>))"
proof -
  have o1: "map_of (OutputMap.entries om) key = None \<longrightarrow>
      (\<exists>om'. OutputMap_index om key =
               Inr ((defaultOutput om)\<lparr>Output.group := OutputMap.name om, Output.name := key\<rparr>, om')
         \<and> map_of (OutputMap.entries om') =
             (map_of (OutputMap.entries om))
               (key \<mapsto> (defaultOutput om)\<lparr>Output.group := OutputMap.name om, Output.name := key\<rparr>)
         \<and> defaultOutput om' = defaultOutput om \<and> OutputMap.name om' = OutputMap.name om)"
    by (simp add: OutputMap_index_absent map_of_snoc_fresh del: map_of_append)
  have o2: "map_of (OutputMap.entries om) key = Some op \<longrightarrow> OutputMap_index om key = Inr (op, om)"
    by (simp add: OutputMap_index_present)
  have o3: "\<exists>p m'. OutputMap_index om key = Inr (p, m')"
    by (cases "map_of (OutputMap.entries om) key")
       (simp_all add: OutputMap_index_absent OutputMap_index_present)
  have o4: "OutputMap_index om key = Inr (op, om') \<longrightarrow> OutputMap_index om' key = Inr (op, om')"
    using OutputMap_index_lookup[of om key op om'] by (simp add: OutputMap_index_present)
  have o5: "OutputMap_index om key = Inr (op, om') \<longrightarrow>
        OutputMap_index (om'\<lparr>OutputMap.entries := modify_om (OutputMap.entries om') key f\<rparr>) key
          = Inr (f op, om'\<lparr>OutputMap.entries := modify_om (OutputMap.entries om') key f\<rparr>)"
    using OutputMap_index_lookup[of om key op om']
    by (simp add: OutputMap_index_present map_of_modify_om)
  have i1: "map_of (InputMap.entries im) key = None \<longrightarrow>
      (\<exists>im'. InputMap_index im key =
               Inr ((defaultInput im)\<lparr>Input.group := InputMap.name im, Input.name := key\<rparr>, im')
         \<and> map_of (InputMap.entries im') =
             (map_of (InputMap.entries im))
               (key \<mapsto> (defaultInput im)\<lparr>Input.group := InputMap.name im, Input.name := key\<rparr>)
         \<and> defaultInput im' = defaultInput im \<and> InputMap.name im' = InputMap.name im)"
    by (simp add: InputMap_index_absent map_of_snoc_fresh del: map_of_append)
  have i2: "map_of (InputMap.entries im) key = Some ip \<longrightarrow> InputMap_index im key = Inr (ip, im)"
    by (simp add: InputMap_index_present)
  have i3: "\<exists>p m'. InputMap_index im key = Inr (p, m')"
    by (cases "map_of (InputMap.entries im) key")
       (simp_all add: InputMap_index_absent InputMap_index_present)
  have i4: "InputMap_index im key = Inr (ip, im') \<longrightarrow> InputMap_index im' key = Inr (ip, im')"
    using InputMap_index_lookup[of im key ip im'] by (simp add: InputMap_index_present)
  have i5: "InputMap_index im key = Inr (ip, im') \<longrightarrow>
        InputMap_index (im'\<lparr>InputMap.entries := modify_om (InputMap.entries im') key g\<rparr>) key
          = Inr (g ip, im'\<lparr>InputMap.entries := modify_om (InputMap.entries im') key g\<rparr>)"
    using InputMap_index_lookup[of im key ip im']
    by (simp add: InputMap_index_present map_of_modify_om)
  from o1 o2 o3 o4 o5 i1 i2 i3 i4 i5 show ?thesis by (intro conjI)
qed

theorem map_index_witness:
  "map_of (InputMap.entries ex_ins) ''x'' = None
   \<and> (\<exists>im'. InputMap_index ex_ins ''x'' = Inr (ex_input ''ins'' ''x'' 20 4, im')
        \<and> map (map_of (InputMap.entries im')) [''c'', ''x'', ''y'']
            = [Some (ex_input ''ins'' ''c'' 20 4), Some (ex_input ''ins'' ''x'' 20 4), None])
   \<and> map_of (InputMap.entries ex_ins) ''c'' = Some (ex_input ''ins'' ''c'' 20 4)
   \<and> InputMap_index ex_ins ''c'' = Inr (ex_input ''ins'' ''c'' 20 4, ex_ins)
   \<and> InputMap_index
        (ex_ins\<lparr>InputMap.entries := modify_om (InputMap.entries ex_ins) ''c'' (setQueueSize 7)\<rparr>) ''c''
       = Inr (setQueueSize 7 (ex_input ''ins'' ''c'' 20 4),
              ex_ins\<lparr>InputMap.entries := modify_om (InputMap.entries ex_ins) ''c'' (setQueueSize 7)\<rparr>)
   \<and> getQueueSize (setQueueSize 7 (ex_input ''ins'' ''c'' 20 4)) = 7
   \<and> map_of (OutputMap.entries ex_outs) ''z'' = None
   \<and> (\<exists>om'. OutputMap_index ex_outs ''z'' =
               Inr (\<lparr>Output.name = ''z'', group = ''outs'', parent = 10\<rparr>, om')
        \<and> map (map_of (OutputMap.entries om')) [''y'', ''z'']
            = [Some \<lparr>Output.name = ''y'', group = ''outs'', parent = 10\<rparr>,
               Some \<lparr>Output.name = ''z'', group = ''outs'', parent = 10\<rparr>])
   \<and> map_of (OutputMap.entries ex_outs) ''y'' = Some \<lparr>Output.name = ''y'', group = ''outs'', parent = 10\<rparr>
   \<and> OutputMap_index ex_outs ''y'' = Inr (\<lparr>Output.name = ''y'', group = ''outs'', parent = 10\<rparr>, ex_outs)
   \<and> OutputMap_index
        (ex_outs\<lparr>OutputMap.entries :=
           modify_om (OutputMap.entries ex_outs) ''y'' (\<lambda>p. p\<lparr>Output.parent := 30\<rparr>)\<rparr>) ''y''
       = Inr (\<lparr>Output.name = ''y'', group = ''outs'', parent = 30\<rparr>,
              ex_outs\<lparr>OutputMap.entries :=
                modify_om (OutputMap.entries ex_outs) ''y'' (\<lambda>p. p\<lparr>Output.parent := 30\<rparr>)\<rparr>)"
proof -
  let ?c = "ex_input ''ins'' ''c'' 20 4"
  let ?y = "\<lparr>Output.name = ''y'', group = ''outs'', parent = 10\<rparr>"
  have a: "map_of (InputMap.entries ex_ins) ''x'' = None"
    and p: "map_of (InputMap.entries ex_ins) ''c'' = Some ?c"
    by (simp_all add: ex_ins_def ex_input_def)
  have oa: "map_of (OutputMap.entries ex_outs) ''z'' = None"
    and op: "map_of (OutputMap.entries ex_outs) ''y'' = Some ?y"
    by (simp_all add: ex_outs_def)
  note tI = map_index[where key = "''c''" and im = ex_ins and ip = ?c and im' = ex_ins
                 and g = "setQueueSize 7"]
  note t = map_index[where key = "''y''" and om = ex_outs and op = ?y and om' = ex_outs
                 and f = "\<lambda>p. p\<lparr>Output.parent := 30\<rparr>"]
  note t' = map_index[where key = "''z''" and om = ex_outs, THEN conjunct1]
  note t'' = map_index[where key = "''x''" and im = ex_ins, THEN conjunct2, THEN conjunct2,
                  THEN conjunct2, THEN conjunct2, THEN conjunct2, THEN conjunct1]
  have 1: "InputMap_index ex_ins ''c'' = Inr (?c, ex_ins)" using tI p by blast
  have 2: "InputMap_index
        (ex_ins\<lparr>InputMap.entries := modify_om (InputMap.entries ex_ins) ''c'' (setQueueSize 7)\<rparr>) ''c''
       = Inr (setQueueSize 7 ?c,
              ex_ins\<lparr>InputMap.entries := modify_om (InputMap.entries ex_ins) ''c'' (setQueueSize 7)\<rparr>)"
    using tI 1 by blast
  have 3: "OutputMap_index ex_outs ''y'' = Inr (?y, ex_outs)" using t op by blast
  have 4: "OutputMap_index
        (ex_outs\<lparr>OutputMap.entries :=
           modify_om (OutputMap.entries ex_outs) ''y'' (\<lambda>p. p\<lparr>Output.parent := 30\<rparr>)\<rparr>) ''y''
       = Inr (?y\<lparr>Output.parent := 30\<rparr>,
              ex_outs\<lparr>OutputMap.entries :=
                modify_om (OutputMap.entries ex_outs) ''y'' (\<lambda>p. p\<lparr>Output.parent := 30\<rparr>)\<rparr>)"
    using t 3 by blast
  from t' oa obtain om' where
    "OutputMap_index ex_outs ''z'' =
       Inr ((defaultOutput ex_outs)\<lparr>Output.group := OutputMap.name ex_outs, Output.name := ''z''\<rparr>, om')"
    "map_of (OutputMap.entries om') =
       (map_of (OutputMap.entries ex_outs))
         (''z'' \<mapsto> (defaultOutput ex_outs)\<lparr>Output.group := OutputMap.name ex_outs, Output.name := ''z''\<rparr>)"
    by blast
  then have 5: "\<exists>om'. OutputMap_index ex_outs ''z'' =
               Inr (\<lparr>Output.name = ''z'', group = ''outs'', parent = 10\<rparr>, om')
        \<and> map (map_of (OutputMap.entries om')) [''y'', ''z'']
            = [Some ?y, Some \<lparr>Output.name = ''z'', group = ''outs'', parent = 10\<rparr>]"
    by (simp add: ex_outs_def)
  from t'' a obtain im' where
    "InputMap_index ex_ins ''x'' =
       Inr ((defaultInput ex_ins)\<lparr>Input.group := InputMap.name ex_ins, Input.name := ''x''\<rparr>, im')"
    "map_of (InputMap.entries im') =
       (map_of (InputMap.entries ex_ins))
         (''x'' \<mapsto> (defaultInput ex_ins)\<lparr>Input.group := InputMap.name ex_ins, Input.name := ''x''\<rparr>)"
    by blast
  then have 6: "\<exists>im'. InputMap_index ex_ins ''x'' = Inr (ex_input ''ins'' ''x'' 20 4, im')
        \<and> map (map_of (InputMap.entries im')) [''c'', ''x'', ''y'']
            = [Some ?c, Some (ex_input ''ins'' ''x'' 20 4), None]"
    by (simp add: ex_ins_def ex_input_def)
  have 7: "getQueueSize (setQueueSize 7 ?c) = 7"
    by (simp add: getQueueSize_def setQueueSize_def)
  from a p oa op 1 2 3 4 5 6 7 show ?thesis by simp
qed

section \<open>Non-blocking fan-out (C1)\<close>

text \<open>
  C1 says, for every output, that \<open>trySend\<close> attempts a delivery to every input matched by
  a current connection.  Like \<open>send\<close>, the loop of \<open>trySend\<close> calls \<open>node->getInputRefs()\<close> on
  what \<open>getNode\<close> returned with no test for the null pointer.  In \<open>ex_world_stale\<close> the
  output \<open>aux\<close> has three current connections; the first names node 9, which is not
  registered, the other two resolve and match three inputs.  \<open>trySend\<close> ends at the first
  connection with the null dereference: it returns no flag and none of the three
  matched inputs sees an attempt.
\<close>

theorem trySend_every_output_counterexample:
  "Output_getConnections ex_world_stale ex_aux =
     Inr [ex_conn ''aux'' 9 [] ''a'', ex_conn ''aux'' 2 [] ''a'', ex_conn ''aux'' 2 ''ins'' ''c'']
   \<and> resolveInputs ex_world_stale ex_aux (ex_conn ''aux'' 9 [] ''a'') = Inl NullDeref
   \<and> matchedInputs_conns ex_world_stale ex_aux
        [ex_conn ''aux'' 2 [] ''a'', ex_conn ''aux'' 2 ''ins'' ''c'']
       = Inr [InputObj 1, InputElem 6 ''a'', InputElem 5 ''c'']
   \<and> trySend bq_trySend ex_world_stale ex_aux (42::nat) = Inl NullDeref"
  by (simp add: trySend_def fan_defs ex_defs)

text \<open>
  C1, amended.  For an output all of whose current connections resolve to registered
  nodes, let \<open>ts\<close> be the inputs matched by these connections, in delivery order.  Then
  \<open>trySend\<close> makes one delivery attempt per element of \<open>ts\<close>, whatever the earlier attempts
  returned, and returns the conjunction of all their flags.  When no input occurs twice
  in \<open>ts\<close>, the flag of each input is what its queue answers to the message, the queue of
  every matched input is the queue after that attempt, and no other input changes.  An
  output without connections returns true and changes nothing.
\<close>

theorem trySend_fanout:
  "(matchedInputs w out = Inr ts \<longrightarrow>
      trySend qt w out msg =
        Inr (list_all (\<lambda>ok. ok) (fst (attempt_all qt msg w ts)), snd (attempt_all qt msg w ts))
      \<and> length (fst (attempt_all qt msg w ts)) = length ts)
   \<and> (matchedInputs w out = Inr ts \<and> distinct ts \<longrightarrow>
        (\<exists>w'. trySend qt w out msg = Inr (list_all (flagOf qt msg w) ts, w')
           \<and> (\<forall>p. derefInput w' p =
                (if p \<in> set ts
                 then map_option (\<lambda>i. i\<lparr>queue := snd (qt msg (queue i))\<rparr>) (derefInput w p)
                 else derefInput w p))))
   \<and> (Output_getConnections w out = Inr [] \<longrightarrow> trySend qt w out msg = Inr (True, w))"
proof -
  have main: "trySend qt w out msg =
        Inr (list_all (\<lambda>ok. ok) (fst (attempt_all qt msg w ts)), snd (attempt_all qt msg w ts))"
    if m: "matchedInputs w out = Inr ts"
  proof -
    from m obtain conns where c: "Output_getConnections w out = Inr conns"
      and mc: "matchedInputs_conns w out conns = Inr ts"
      by (auto simp: matchedInputs_def split: sum.splits)
    show ?thesis
      using c trySend_conns_attempt_all[OF mc, of qt msg True]
      by (simp add: trySend_def split: prod.splits)
  qed
  have valid: "list_all (validPtr w) ts" if m: "matchedInputs w out = Inr ts"
  proof -
    from m obtain conns where mc: "matchedInputs_conns w out conns = Inr ts"
      by (auto simp: matchedInputs_def split: sum.splits)
    then show ?thesis by (rule matchedInputs_conns_valid)
  qed
  have dist: "\<exists>w'. trySend qt w out msg = Inr (list_all (flagOf qt msg w) ts, w')
           \<and> (\<forall>p. derefInput w' p =
                (if p \<in> set ts
                 then map_option (\<lambda>i. i\<lparr>queue := snd (qt msg (queue i))\<rparr>) (derefInput w p)
                 else derefInput w p))"
    if m: "matchedInputs w out = Inr ts" and d: "distinct ts"
  proof -
    note a = attempt_all_distinct[OF d valid[OF m], of qt msg]
    have "list_all (\<lambda>ok. ok) (map (flagOf qt msg w) ts) = list_all (flagOf qt msg w) ts"
      by (simp add: list_all_iff)
    with a main[OF m] show ?thesis by simp
  qed
  have none: "trySend qt w out msg = Inr (True, w)" if "Output_getConnections w out = Inr []"
    using that by (simp add: trySend_def)
  from main dist none show ?thesis by (simp add: length_attempt_all)
qed

theorem trySend_fanout_witness:
  "matchedInputs ex_world ex_out = Inr [InputObj 1, InputElem 6 ''a'', InputObj 2, InputElem 5 ''c'']
   \<and> distinct [InputObj 1, InputElem 6 ''a'', InputObj 2, InputElem 5 ''c'']
   \<and> map (flagOf bq_trySend (42::nat) ex_world) [InputObj 1, InputElem 6 ''a'', InputObj 2, InputElem 5 ''c'']
        = [True, True, False, True]
   \<and> (\<exists>w'. trySend bq_trySend ex_world ex_out (42::nat) = Inr (False, w')
        \<and> map (\<lambda>p. map_option queue (derefInput w' p))
             [InputObj 1, InputElem 6 ''a'', InputObj 2, InputElem 5 ''c'', InputObj 3]
            = [Some ([42], 4), Some ([42], 4), Some ([], 0), Some ([42], 4), Some ([], 4)])
   \<and> Output_getConnections ex_world ex_idle = Inr []
   \<and> trySend bq_trySend ex_world ex_idle (42::nat) = Inr (True, ex_world)"
proof -
  let ?ts = "[InputObj 1, InputElem 6 ''a'', InputObj 2, InputElem 5 ''c'']"
  have h: "matchedInputs ex_world ex_out = Inr ?ts"
    by (simp add: fan_defs ex_defs)
  have d: "distinct ?ts" by simp
  have f: "map (flagOf bq_trySend (42::nat) ex_world) ?ts = [True, True, False, True]"
    by (simp add: flagOf_def bq_trySend_def ex_defs)
  have z: "Output_getConnections ex_world ex_idle = Inr []"
    by (simp add: fan_defs ex_defs)
  from trySend_fanout[of ex_world ex_out ?ts bq_trySend 42] h d
  obtain w' where w': "trySend bq_trySend ex_world ex_out (42::nat)
        = Inr (list_all (flagOf bq_trySend 42 ex_world) ?ts, w')"
    and dq: "\<And>p. derefInput w' p =
         (if p \<in> set ?ts
          then map_option (\<lambda>i. i\<lparr>queue := snd (bq_trySend 42 (queue i))\<rparr>) (derefInput ex_world p)
          else derefInput ex_world p)"
    by blast
  have fl: "list_all (flagOf bq_trySend (42::nat) ex_world) ?ts = False"
    by (simp add: flagOf_def bq_trySend_def ex_defs)
  have qs: "map (\<lambda>p. map_option queue (derefInput w' p))
             [InputObj 1, InputElem 6 ''a'', InputObj 2, InputElem 5 ''c'', InputObj 3]
            = [Some ([42], 4), Some ([42], 4), Some ([], 0), Some ([42], 4), Some ([], 4)]"
    by (simp add: dq bq_trySend_def ex_defs)
  from trySend_fanout[of ex_world ex_idle "[]" bq_trySend 42] z
  have i: "trySend bq_trySend ex_world ex_idle (42::nat) = Inr (True, ex_world)" by blast
  from w' fl qs have "\<exists>w'. trySend bq_trySend ex_world ex_out (42::nat) = Inr (False, w')
        \<and> map (\<lambda>p. map_option queue (derefInput w' p))
             [InputObj 1, InputElem 6 ''a'', InputObj 2, InputElem 5 ''c'', InputObj 3]
            = [Some ([42], 4), Some ([42], 4), Some ([], 0), Some ([42], 4), Some ([], 4)]"
    by auto
  with h d f z i show ?thesis by (intro conjI)
qed

section \<open>Formatting of a port (C7)\<close>

lemma format_one: "format ''{}'' [a] = a"
  by simp

lemma format_two: "format ''{}[\"{}\"]'' [g, n] = g @ ''[\"'' @ n @ ''\"]''"
  by simp

text \<open>
  C7.  \<open>toString\<close> of an output and of an input is the port's name when the group is
  the empty string, and otherwise the group, an opening bracket, the name in double
  quotes and a closing bracket.
\<close>

theorem toString_renders:
  "toString_Output p =
     (if Output.group p = [] then Output.name p
      else Output.group p @ ''[\"'' @ Output.name p @ ''\"]'')
   \<and> toString_Input i =
     (if Input.group i = [] then Input.name i
      else Input.group i @ ''[\"'' @ Input.name i @ ''\"]'')"
  by (simp add: toString_Output_def toString_Input_def format_one format_two del: format.simps)

lemma toString_examples:
  "toString_Output \<lparr>Output.name = ''a'', group = [], parent = 0\<rparr> = ''a''"
  "toString_Output \<lparr>Output.name = ''a'', group = ''g'', parent = 0\<rparr> = ''g[\"a\"]''"
  by (simp_all add: toString_Output_def)

section \<open>The wait / reuse policy of an input (C3)\<close>

text \<open>
  C3.  After any sequence of calls of \<open>setWaitForMessage\<close> and \<open>setReusePreviousMessage\<close>,
  \<open>getWaitForMessage\<close> is the negation of \<open>getReusePreviousMessage\<close>.  Both setters write
  the one optional field \<open>waitForMessage\<close> (the second with the opposite polarity) and
  leave every other field alone, and each getter returns what its own setter was last
  given.
\<close>

theorem wait_negates_reuse:
  "getWaitForMessage (run_calls i cs) = (\<not> getReusePreviousMessage (run_calls i cs))
   \<and> getWaitForMessage (setWaitForMessage b i) = b
   \<and> getReusePreviousMessage (setReusePreviousMessage b i) = b
   \<and> setWaitForMessage b i = i\<lparr>waitForMessage := Some b\<rparr>
   \<and> setReusePreviousMessage b i = i\<lparr>waitForMessage := Some (\<not> b)\<rparr>"
  by (simp add: getWaitForMessage_def getReusePreviousMessage_def setWaitForMessage_def
        setReusePreviousMessage_def)

section \<open>The connections of an output (C6)\<close>

lemma getConnections_loop_filter:
  "getConnections_loop cs pid out my =
     my @ filter (\<lambda>c. outputId c = pid \<and> outputName c = Output.name out
                      \<and> outputGroup c = Output.group out) cs"
  by (induction cs arbitrary: my) auto

lemma getConnections_dead_pipeline:
  "nodes w (Output.parent out) = Some pn \<Longrightarrow> lock w (Node.parent pn) = None \<Longrightarrow>
   Output_getConnections w out = Inl BadWeakPtr"
  by (simp add: Output_getConnections_def getParentPipeline_def)

text \<open>
  C6.  For an output whose owning node \<open>pn\<close> belongs to a pipeline \<open>pl\<close> that is alive,
  \<open>getConnections\<close> returns the connections of the pipeline's list whose \<open>outputId\<close>,
  \<open>outputGroup\<close> and \<open>outputName\<close> are the node's id and the port's group and name, in
  the order of that list.  (When the pipeline is gone there is no list: the call ends
  with \<open>bad_weak_ptr\<close>.)
\<close>

theorem getConnections_filter:
  assumes "nodes w (Output.parent out) = Some pn"
    and "Node.parent pn = Some a"
    and "pipelines w a = Some pl"
  shows "Output_getConnections w out =
     Inr (filter (\<lambda>c. outputId c = id_node pn \<and> outputName c = Output.name out
                      \<and> outputGroup c = Output.group out) (connections pl))"
proof -
  have "getParentPipeline w pn = Inr pl"
    using assms by (simp add: getParentPipeline_def lock_def)
  then show ?thesis
    using assms(1) by (simp add: Output_getConnections_def getConnections_loop_filter)
qed

theorem getConnections_filter_witness:
  "nodes ex_world (Output.parent ex_out) = Some ex_producer
   \<and> Node.parent ex_producer = Some 100
   \<and> pipelines ex_world 100 = Some ex_pipeline
   \<and> Output_getConnections ex_world ex_out =
       Inr [ex_conn ''out'' 2 [] ''a'', ex_conn ''out'' 2 [] ''b'', ex_conn ''out'' 2 ''ins'' ''c'']"
proof -
  have 1: "nodes ex_world (Output.parent ex_out) = Some ex_producer"
    by (simp add: ex_world_def ex_out_def)
  have 2: "Node.parent ex_producer = Some 100" by (simp add: ex_producer_def)
  have 3: "pipelines ex_world 100 = Some ex_pipeline" by (simp add: ex_world_def)
  from getConnections_filter[OF 1 2 3] 1 2 3 show ?thesis
    by (simp add: ex_pipeline_def ex_conns_def ex_conn_def ex_out_def ex_producer_def)
qed

section \<open>Pipeline identity (C10)\<close>

text \<open>
  C10.  \<open>isSamePipeline\<close> is true exactly when the weak reference of the output's node
  locks to a pipeline and the weak reference of the input's node locks to the same
  pipeline.  When the output's reference locks to null the result is false, whatever
  the input's reference locks to (null included).  A weak reference locks to \<open>a\<close>
  exactly when it points to \<open>a\<close> and \<open>a\<close> is alive.
\<close>

theorem isSamePipeline_iff:
  "(nodes w (Output.parent out) = Some pn \<and> nodes w (Input.parent in') = Some inn \<longrightarrow>
      isSamePipeline w out in' =
        Inr (lock w (Node.parent pn) \<noteq> None \<and> lock w (Node.parent pn) = lock w (Node.parent inn)))
   \<and> (nodes w (Output.parent out) = Some pn \<and> lock w (Node.parent pn) = None \<longrightarrow>
        isSamePipeline w out in' = Inr False)
   \<and> (lock w wp = Some a \<longleftrightarrow> wp = Some a \<and> pipelines w a \<noteq> None)"
  by (auto simp: isSamePipeline_def lock_def split: option.splits)

theorem isSamePipeline_iff_witness:
  "nodes ex_world (Output.parent ex_out) = Some ex_producer
   \<and> nodes ex_world (Input.parent (ex_input [] ''a'' 20 4)) = Some ex_consumer
   \<and> isSamePipeline ex_world ex_out (ex_input [] ''a'' 20 4) = Inr True
   \<and> nodes ex_world (Output.parent ex_lost) = Some ex_orphan
   \<and> lock ex_world (Node.parent ex_orphan) = None
   \<and> lock ex_world (Node.parent ex_orphan) = lock ex_world (Node.parent ex_orphan)
   \<and> isSamePipeline ex_world ex_lost (ex_input [] ''z'' 30 4) = Inr False
   \<and> isSamePipeline ex_world ex_out (ex_input [] ''z'' 30 4) = Inr False"
proof -
  have 1: "nodes ex_world (Output.parent ex_out) = Some ex_producer"
    by (simp add: ex_world_def ex_out_def)
  have 2: "nodes ex_world (Input.parent (ex_input [] ''a'' 20 4)) = Some ex_consumer"
    by (simp add: ex_world_def ex_input_def)
  have 3: "nodes ex_world (Output.parent ex_lost) = Some ex_orphan"
    by (simp add: ex_world_def ex_lost_def)
  have 4: "lock ex_world (Node.parent ex_orphan) = None"
    by (simp add: lock_def ex_world_def ex_orphan_def)
  have 5: "nodes ex_world (Input.parent (ex_input [] ''z'' 30 4)) = Some ex_orphan"
    by (simp add: ex_world_def ex_input_def)
  have 6: "lock ex_world (Node.parent ex_producer) = Some 100"
    "lock ex_world (Node.parent ex_consumer) = Some 100"
    by (simp_all add: lock_def ex_world_def ex_producer_def ex_consumer_def)
  from isSamePipeline_iff[of ex_world ex_out ex_producer "ex_input [] ''a'' 20 4" ex_consumer] 1 2 6
  have a: "isSamePipeline ex_world ex_out (ex_input [] ''a'' 20 4) = Inr True" by simp
  from isSamePipeline_iff[of ex_world ex_lost ex_orphan "ex_input [] ''z'' 30 4"] 3 4
  have b: "isSamePipeline ex_world ex_lost (ex_input [] ''z'' 30 4) = Inr False" by blast
  from isSamePipeline_iff[of ex_world ex_out ex_producer "ex_input [] ''z'' 30 4" ex_orphan] 1 5 4 6
  have c: "isSamePipeline ex_world ex_out (ex_input [] ''z'' 30 4) = Inr False" by simp
  from 1 2 3 4 a b c show ?thesis by simp
qed

section \<open>Blocking fan-out and a node id that no longer resolves (C2)\<close>

text \<open>
  C2 says that \<open>send\<close> skips a connection whose input node id is no longer registered
  and goes on with the others.  The loop body has no such guard: \<open>getNode\<close> returns the
  null pointer, \<open>node->getInputRefs()\<close> dereferences it, and the fan-out ends there.  In
  \<open>ex_world_stale\<close> the first connection of the output \<open>aux\<close> names node 9, which is not
  registered; the two connections after it resolve and match three inputs, and \<open>send\<close>
  delivers to none of them.
\<close>

theorem send_skips_counterexample:
  "Output_getConnections ex_world_stale ex_aux =
     Inr [ex_conn ''aux'' 9 [] ''a'', ex_conn ''aux'' 2 [] ''a'', ex_conn ''aux'' 2 ''ins'' ''c'']
   \<and> resolveInputs ex_world_stale ex_aux (ex_conn ''aux'' 9 [] ''a'') = Inl NullDeref
   \<and> matchedInputs_conns ex_world_stale ex_aux
        [ex_conn ''aux'' 2 [] ''a'', ex_conn ''aux'' 2 ''ins'' ''c'']
       = Inr [InputObj 1, InputElem 6 ''a'', InputElem 5 ''c'']
   \<and> send bq_send ex_world_stale ex_aux (42::nat) = Inl NullDeref"
  by (simp add: send_def fan_defs ex_defs)

text \<open>
  C2, amended.  \<open>send\<close> resolves the input node id of each connection through the
  pipeline and delivers to every matching input of that node, connection by connection.
  When every connection of the output resolves to a registered node, with \<open>ts\<close> the
  matched inputs in delivery order, \<open>send\<close> is the run of blocking deliveries over \<open>ts\<close>.
  A connection whose node id does not resolve is not skipped: when the connections before
  it have been delivered, \<open>send\<close> stops at it with the null dereference and the
  connections after it are not served.
\<close>

theorem send_fanout:
  "(matchedInputs w out = Inr ts \<longrightarrow> send qs w out msg = deliver_all qs msg w ts)
   \<and> (Output_getConnections w out = Inr (conns @ conn # rest)
        \<and> matchedInputs_conns w out conns = Inr ts'
        \<and> deliver_all qs msg w ts' = Inr w1
        \<and> nodes w (Output.parent out) = Some pn
        \<and> getParentPipeline w pn = Inr pl
        \<and> getNode pl (inputId conn) = None
      \<longrightarrow> send qs w out msg = Inl NullDeref)"
proof -
  have 1: "send qs w out msg = deliver_all qs msg w ts" if m: "matchedInputs w out = Inr ts"
  proof -
    from m obtain cs where c: "Output_getConnections w out = Inr cs"
      and mc: "matchedInputs_conns w out cs = Inr ts"
      by (auto simp: matchedInputs_def split: sum.splits)
    show ?thesis using c send_conns_deliver_all[OF mc, of qs msg] by (simp add: send_def)
  qed
  have 2: "send qs w out msg = Inl NullDeref"
    if c: "Output_getConnections w out = Inr (conns @ conn # rest)"
      and mc: "matchedInputs_conns w out conns = Inr ts'"
      and d: "deliver_all qs msg w ts' = Inr w1"
      and n: "nodes w (Output.parent out) = Some pn" "getParentPipeline w pn = Inr pl"
        "getNode pl (inputId conn) = None"
  proof -
    have r: "resolveInputs w out conn = Inl NullDeref"
      using n by (simp add: resolveInputs_def)
    show ?thesis using c send_conns_unresolved[OF mc d r, of rest] by (simp add: send_def)
  qed
  from 1 2 show ?thesis by blast
qed

theorem send_fanout_witness:
  "matchedInputs ex_world ex_aux = Inr [InputObj 1, InputElem 6 ''a'', InputElem 5 ''c'']
   \<and> (\<exists>w'. send bq_send ex_world ex_aux (42::nat) = Inr w'
        \<and> map (\<lambda>p. map_option queue (derefInput w' p))
             [InputObj 1, InputElem 6 ''a'', InputObj 2, InputElem 5 ''c'']
            = [Some ([42], 4), Some ([42], 4), Some ([], 0), Some ([42], 4)])
   \<and> Output_getConnections ex_world_stale ex_aux =
        Inr ([] @ ex_conn ''aux'' 9 [] ''a''
               # [ex_conn ''aux'' 2 [] ''a'', ex_conn ''aux'' 2 ''ins'' ''c''])
   \<and> matchedInputs_conns ex_world_stale ex_aux [] = Inr []
   \<and> deliver_all bq_send (42::nat) ex_world_stale [] = Inr ex_world_stale
   \<and> nodes ex_world_stale (Output.parent ex_aux) = Some ex_producer
   \<and> getParentPipeline ex_world_stale ex_producer =
        Inr (ex_pipeline\<lparr>connections := ex_conn ''aux'' 9 [] ''a'' # ex_conns\<rparr>)
   \<and> getNode (ex_pipeline\<lparr>connections := ex_conn ''aux'' 9 [] ''a'' # ex_conns\<rparr>)
        (inputId (ex_conn ''aux'' 9 [] ''a'')) = None
   \<and> send bq_send ex_world_stale ex_aux (42::nat) = Inl NullDeref"
proof -
  let ?ts = "[InputObj 1, InputElem 6 ''a'', InputElem 5 ''c'']"
  let ?pl = "ex_pipeline\<lparr>connections := ex_conn ''aux'' 9 [] ''a'' # ex_conns\<rparr>"
  have h: "matchedInputs ex_world ex_aux = Inr ?ts"
    by (simp add: fan_defs ex_defs)
  from send_fanout[of ex_world ex_aux ?ts bq_send 42] h
  have s: "send bq_send ex_world ex_aux (42::nat) = deliver_all bq_send 42 ex_world ?ts"
    by blast
  have "\<exists>w'. deliver_all bq_send (42::nat) ex_world ?ts = Inr w'
        \<and> map (\<lambda>p. map_option queue (derefInput w' p))
             [InputObj 1, InputElem 6 ''a'', InputObj 2, InputElem 5 ''c'']
            = [Some ([42], 4), Some ([42], 4), Some ([], 0), Some ([42], 4)]"
    by (simp add: run_defs ex_defs)
  with s have a: "\<exists>w'. send bq_send ex_world ex_aux (42::nat) = Inr w'
        \<and> map (\<lambda>p. map_option queue (derefInput w' p))
             [InputObj 1, InputElem 6 ''a'', InputObj 2, InputElem 5 ''c'']
            = [Some ([42], 4), Some ([42], 4), Some ([], 0), Some ([42], 4)]"
    by simp
  have c: "Output_getConnections ex_world_stale ex_aux =
        Inr ([] @ ex_conn ''aux'' 9 [] ''a''
               # [ex_conn ''aux'' 2 [] ''a'', ex_conn ''aux'' 2 ''ins'' ''c''])"
    by (simp add: fan_defs ex_defs)
  have m: "matchedInputs_conns ex_world_stale ex_aux [] = Inr []" by simp
  have d: "deliver_all bq_send (42::nat) ex_world_stale [] = Inr ex_world_stale" by simp
  have n: "nodes ex_world_stale (Output.parent ex_aux) = Some ex_producer"
    by (simp add: ex_world_stale_def ex_world_def ex_aux_def)
  have g: "getParentPipeline ex_world_stale ex_producer = Inr ?pl"
    by (simp add: getParentPipeline_def lock_def ex_world_stale_def ex_world_def ex_producer_def)
  have u: "getNode ?pl (inputId (ex_conn ''aux'' 9 [] ''a'')) = None"
    by (simp add: getNode_def ex_pipeline_def ex_conn_def)
  from send_fanout[of ex_world_stale ex_aux _ bq_send 42 "[]" "ex_conn ''aux'' 9 [] ''a''"
      "[ex_conn ''aux'' 2 [] ''a'', ex_conn ''aux'' 2 ''ins'' ''c'']" "[]" ex_world_stale
      ex_producer ?pl] c m d n g u
  have b: "send bq_send ex_world_stale ex_aux (42::nat) = Inl NullDeref" by blast
  from h a c m d n g u b show ?thesis by (intro conjI)
qed

section \<open>All matching inputs of a connection receive the message (C9)\<close>

text \<open>
  C9.  In one step of the fan-out, over the input pointers \<open>ptrs\<close> of the resolved node,
  the inner loop of \<open>send\<close> is the run of blocking deliveries over all pointers of \<open>ptrs\<close>
  that match the connection's input group and name, not only the first; the inner loop
  of \<open>trySend\<close> is the run of attempts over the same pointers, and its flag is the
  incoming flag and all of theirs.  When no pointer occurs twice in \<open>ptrs\<close> and the inner
  loop of \<open>send\<close> returns, the queue of every matching input is the queue after the send
  of the message.
\<close>

theorem inner_loop_all_matches:
  "(list_all (validPtr w) ptrs \<longrightarrow>
      send_inputs qs w ptrs conn msg = deliver_all qs msg w (filter (matchesConn w conn) ptrs))
   \<and> (list_all (validPtr w) ptrs \<longrightarrow>
      trySend_inputs qt w ptrs conn msg success =
        Inr (success \<and> list_all (\<lambda>ok. ok)
                          (fst (attempt_all qt msg w (filter (matchesConn w conn) ptrs))),
             snd (attempt_all qt msg w (filter (matchesConn w conn) ptrs))))
   \<and> (list_all (validPtr w) ptrs \<and> distinct ptrs \<and> send_inputs qs w ptrs conn msg = Inr w'
        \<longrightarrow> (\<forall>p \<in> set ptrs. matchesConn w conn p \<longrightarrow>
               (\<exists>i q'. derefInput w p = Some i \<and> qs msg (queue i) = Some q'
                      \<and> derefInput w' p = Some (i\<lparr>queue := q'\<rparr>))))
   \<and> (list_all (validPtr w) ptrs \<and> distinct ptrs
        \<longrightarrow> (\<exists>w''. trySend_inputs qt w ptrs conn msg success =
                    Inr (success \<and> list_all (flagOf qt msg w) (filter (matchesConn w conn) ptrs), w'')
               \<and> (\<forall>p \<in> set ptrs. matchesConn w conn p \<longrightarrow>
                     derefInput w'' p =
                       map_option (\<lambda>i. i\<lparr>queue := snd (qt msg (queue i))\<rparr>) (derefInput w p))))"
proof -
  have 1: "send_inputs qs w ptrs conn msg = deliver_all qs msg w (filter (matchesConn w conn) ptrs)"
    if "list_all (validPtr w) ptrs"
    using that by (rule send_inputs_deliver_all)
  have 2: "trySend_inputs qt w ptrs conn msg success =
        Inr (success \<and> list_all (\<lambda>ok. ok)
                          (fst (attempt_all qt msg w (filter (matchesConn w conn) ptrs))),
             snd (attempt_all qt msg w (filter (matchesConn w conn) ptrs)))"
    if "list_all (validPtr w) ptrs"
    using trySend_inputs_attempt_all[OF that, of qt conn msg success]
    by (simp split: prod.splits)
  have 3: "\<exists>i q'. derefInput w p = Some i \<and> qs msg (queue i) = Some q'
                      \<and> derefInput w' p = Some (i\<lparr>queue := q'\<rparr>)"
    if v: "list_all (validPtr w) ptrs" and d: "distinct ptrs"
      and s: "send_inputs qs w ptrs conn msg = Inr w'"
      and p: "p \<in> set ptrs" "matchesConn w conn p" for p
  proof -
    have da: "deliver_all qs msg w (filter (matchesConn w conn) ptrs) = Inr w'"
      using 1[OF v] s by simp
    have "distinct (filter (matchesConn w conn) ptrs)" using d by simp
    moreover have "p \<in> set (filter (matchesConn w conn) ptrs)" using p by simp
    ultimately show ?thesis using da by (intro deliver_all_received)
  qed
  have 4: "\<exists>w''. trySend_inputs qt w ptrs conn msg success =
                    Inr (success \<and> list_all (flagOf qt msg w) (filter (matchesConn w conn) ptrs), w'')
               \<and> (\<forall>p \<in> set ptrs. matchesConn w conn p \<longrightarrow>
                     derefInput w'' p =
                       map_option (\<lambda>i. i\<lparr>queue := snd (qt msg (queue i))\<rparr>) (derefInput w p))"
    if v: "list_all (validPtr w) ptrs" and d: "distinct ptrs"
  proof -
    let ?ms = "filter (matchesConn w conn) ptrs"
    have dm: "distinct ?ms" using d by simp
    have vm: "list_all (validPtr w) ?ms" using v by (simp add: list_all_iff)
    note a = attempt_all_distinct[OF dm vm, of qt msg]
    have "list_all (\<lambda>ok. ok) (map (flagOf qt msg w) ?ms) = list_all (flagOf qt msg w) ?ms"
      by (simp add: list_all_iff)
    with a 2[OF v] show ?thesis by simp
  qed
  from 1 2 3 4 show ?thesis by blast
qed

theorem inner_loop_all_matches_witness:
  "list_all (validPtr ex_world) [InputObj 1, InputObj 2, InputElem 5 ''c'', InputElem 6 ''a'']
   \<and> distinct [InputObj 1, InputObj 2, InputElem 5 ''c'', InputElem 6 ''a'']
   \<and> resolveInputs ex_world ex_out (ex_conn ''out'' 2 [] ''a'')
        = Inr [InputObj 1, InputObj 2, InputElem 5 ''c'', InputElem 6 ''a'']
   \<and> filter (matchesConn ex_world (ex_conn ''out'' 2 [] ''a''))
        [InputObj 1, InputObj 2, InputElem 5 ''c'', InputElem 6 ''a'']
        = [InputObj 1, InputElem 6 ''a'']
   \<and> (\<exists>w'. send_inputs bq_send ex_world
               [InputObj 1, InputObj 2, InputElem 5 ''c'', InputElem 6 ''a'']
               (ex_conn ''out'' 2 [] ''a'') (42::nat) = Inr w'
        \<and> map (\<lambda>p. map_option queue (derefInput w' p))
             [InputObj 1, InputObj 2, InputElem 5 ''c'', InputElem 6 ''a'']
            = [Some ([42], 4), Some ([], 0), Some ([], 4), Some ([42], 4)])
   \<and> (\<exists>w'. trySend_inputs bq_trySend ex_world
               [InputObj 1, InputObj 2, InputElem 5 ''c'', InputElem 6 ''a'']
               (ex_conn ''out'' 2 [] ''a'') (42::nat) True = Inr (True, w')
        \<and> map (\<lambda>p. map_option queue (derefInput w' p))
             [InputObj 1, InputObj 2, InputElem 5 ''c'', InputElem 6 ''a'']
            = [Some ([42], 4), Some ([], 0), Some ([], 4), Some ([42], 4)])"
proof -
  let ?ptrs = "[InputObj 1, InputObj 2, InputElem 5 ''c'', InputElem 6 ''a'']"
  let ?c = "ex_conn ''out'' 2 [] ''a''"
  have v: "list_all (validPtr ex_world) ?ptrs" by (simp add: validPtr_def ex_defs)
  have d: "distinct ?ptrs" by simp
  have r: "resolveInputs ex_world ex_out ?c = Inr ?ptrs" by (simp add: fan_defs ex_defs)
  have f: "filter (matchesConn ex_world ?c) ?ptrs = [InputObj 1, InputElem 6 ''a'']"
    by (simp add: matchesConn_def ex_defs)
  note t = inner_loop_all_matches[of ex_world ?ptrs bq_send ?c 42 bq_trySend True]
  from t v f have s: "send_inputs bq_send ex_world ?ptrs ?c (42::nat)
      = deliver_all bq_send 42 ex_world [InputObj 1, InputElem 6 ''a'']"
    by simp
  from t v f have ts: "trySend_inputs bq_trySend ex_world ?ptrs ?c (42::nat) True
      = Inr (True \<and> list_all (\<lambda>ok. ok) (fst (attempt_all bq_trySend 42 ex_world [InputObj 1, InputElem 6 ''a''])),
             snd (attempt_all bq_trySend 42 ex_world [InputObj 1, InputElem 6 ''a'']))"
    by simp
  have a: "\<exists>w'. deliver_all bq_send (42::nat) ex_world [InputObj 1, InputElem 6 ''a''] = Inr w'
        \<and> map (\<lambda>p. map_option queue (derefInput w' p)) ?ptrs
            = [Some ([42], 4), Some ([], 0), Some ([], 4), Some ([42], 4)]"
    by (simp add: run_defs ex_defs)
  have b1: "fst (attempt_all bq_trySend (42::nat) ex_world [InputObj 1, InputElem 6 ''a'']) = [True, True]"
    by (simp add: run_defs ex_defs)
  have b2: "map (\<lambda>p. map_option queue (derefInput (snd (attempt_all bq_trySend (42::nat) ex_world [InputObj 1, InputElem 6 ''a''])) p)) ?ptrs
            = [Some ([42], 4), Some ([], 0), Some ([], 4), Some ([42], 4)]"
    by (simp add: run_defs ex_defs)
  from s a have A: "\<exists>w'. send_inputs bq_send ex_world ?ptrs ?c (42::nat) = Inr w'
        \<and> map (\<lambda>p. map_option queue (derefInput w' p)) ?ptrs
            = [Some ([42], 4), Some ([], 0), Some ([], 4), Some ([42], 4)]"
    by simp
  from ts b1 b2 have B: "\<exists>w'. trySend_inputs bq_trySend ex_world ?ptrs ?c (42::nat) True = Inr (True, w')
        \<and> map (\<lambda>p. map_option queue (derefInput w' p)) ?ptrs
            = [Some ([42], 4), Some ([], 0), Some ([], 4), Some ([42], 4)]"
    by simp
  from v d r f A B show ?thesis by (intro conjI)
qed

section \<open>Enumerating the ports of a node (C5)\<close>




section \<open>Looking a port up by group and name (C8)\<close>

lemma getOutputRef_scan_find:
  "list_all (validOutputPtr w) refs \<Longrightarrow>
   getOutputRef_scan w refs g nm = Inr (find (outputNamed w g nm) refs)"
  by (induction refs) (auto simp: validOutputPtr_def outputNamed_def split: option.splits)

lemma getInputRef_scan_find:
  "list_all (validPtr w) refs \<Longrightarrow>
   getInputRef_scan w refs g nm = Inr (find (inputNamed w g nm) refs)"
  by (induction refs) (auto simp: validPtr_def inputNamed_def split: option.splits)

text \<open>
  C8.  With \<open>refs\<close> the enumeration of the node's outputs, all pointing to live ports,
  \<open>getOutputRef(group, name)\<close> returns the first pointer of \<open>refs\<close> whose port has that
  group and that name, and the null pointer when there is none; \<open>getInputRef(group, name)\<close>
  does the same over the enumeration of the inputs.  The forms that take only a name
  are the two-argument forms with the empty group.
\<close>

theorem port_lookup:
  "(getOutputRefs w n = Inr orefs \<and> list_all (validOutputPtr w) orefs \<longrightarrow>
      getOutputRef w n g nm = Inr (find (outputNamed w g nm) orefs))
   \<and> (getInputRefs w n = Inr irefs \<and> list_all (validPtr w) irefs \<longrightarrow>
      getInputRef w n g nm = Inr (find (inputNamed w g nm) irefs))
   \<and> getOutputRef_name w n nm = getOutputRef w n [] nm
   \<and> getInputRef_name w n nm = getInputRef w n [] nm"
  by (simp add: getOutputRef_def getInputRef_def getOutputRef_name_def getInputRef_name_def
        getOutputRef_scan_find getInputRef_scan_find)

theorem port_lookup_witness:
  "getOutputRefs ex_world ex_producer =
        Inr [OutputObj 1, OutputObj 2, OutputObj 3, OutputElem 7 ''x'', OutputElem 7 ''y'']
   \<and> list_all (validOutputPtr ex_world)
        [OutputObj 1, OutputObj 2, OutputObj 3, OutputElem 7 ''x'', OutputElem 7 ''y'']
   \<and> getOutputRef ex_world ex_producer ''outs'' ''y'' = Inr (Some (OutputElem 7 ''y''))
   \<and> getOutputRef ex_world ex_producer [] ''y'' = Inr None
   \<and> getOutputRef_name ex_world ex_producer ''aux'' = Inr (Some (OutputObj 2))
   \<and> getInputRefs ex_world ex_consumer =
        Inr [InputObj 1, InputObj 2, InputElem 5 ''c'', InputElem 6 ''a'']
   \<and> list_all (validPtr ex_world) [InputObj 1, InputObj 2, InputElem 5 ''c'', InputElem 6 ''a'']
   \<and> getInputRef ex_world ex_consumer [] ''a'' = Inr (Some (InputObj 1))
   \<and> getInputRef ex_world ex_consumer ''ins'' ''c'' = Inr (Some (InputElem 5 ''c''))
   \<and> getInputRef_name ex_world ex_consumer ''c'' = Inr None"
proof -
  let ?os = "[OutputObj 1, OutputObj 2, OutputObj 3, OutputElem 7 ''x'', OutputElem 7 ''y'']"
  let ?is = "[InputObj 1, InputObj 2, InputElem 5 ''c'', InputElem 6 ''a'']"
  have o: "getOutputRefs ex_world ex_producer = Inr ?os"
    by (simp add: getOutputRefs_def ex_world_def ex_producer_def ex_outs_def)
  have ov: "list_all (validOutputPtr ex_world) ?os"
    by (simp add: validOutputPtr_def ex_world_def ex_outs_def)
  have i: "getInputRefs ex_world ex_consumer = Inr ?is"
    by (simp add: getInputRefs_def ex_world_def ex_consumer_def ex_ins_def ex_unnamed_def)
  have iv: "list_all (validPtr ex_world) ?is"
    by (simp add: validPtr_def ex_world_def ex_ins_def ex_unnamed_def)
  note t = port_lookup[where w = ex_world]
  from t[where n = ex_producer and orefs = ?os and g = "''outs''" and nm = "''y''"] o ov
  have 1: "getOutputRef ex_world ex_producer ''outs'' ''y'' = Inr (Some (OutputElem 7 ''y''))"
    by (simp add: outputNamed_def ex_defs)
  from t[where n = ex_producer and orefs = ?os and g = "[]" and nm = "''y''"] o ov
  have 2: "getOutputRef ex_world ex_producer [] ''y'' = Inr None"
    by (simp add: outputNamed_def ex_defs)
  from t[where n = ex_producer and orefs = ?os and g = "[]" and nm = "''aux''"] o ov
  have 3: "getOutputRef_name ex_world ex_producer ''aux'' = Inr (Some (OutputObj 2))"
    by (simp add: outputNamed_def ex_defs)
  from t[where n = ex_consumer and irefs = ?is and g = "[]" and nm = "''a''"] i iv
  have 4: "getInputRef ex_world ex_consumer [] ''a'' = Inr (Some (InputObj 1))"
    by (simp add: inputNamed_def ex_defs)
  from t[where n = ex_consumer and irefs = ?is and g = "''ins''" and nm = "''c''"] i iv
  have 5: "getInputRef ex_world ex_consumer ''ins'' ''c'' = Inr (Some (InputElem 5 ''c''))"
    by (simp add: inputNamed_def ex_defs)
  from t[where n = ex_consumer and irefs = ?is and g = "[]" and nm = "''c''"] i iv
  have 6: "getInputRef_name ex_world ex_consumer ''c'' = Inr None"
    by (simp add: inputNamed_def ex_defs)
  from o ov i iv 1 2 3 4 5 6 show ?thesis by (intro conjI)
qed

end
